theory Spec2Isabelle
  imports Main "HOL-Library.Word"
begin

unbundle bit_operations_syntax

section \<open>JavaScript values and operators\<close>

text \<open>
  The driver is JavaScript. Its numbers are modelled as \<open>int\<close> (every number the
  driver handles is an integer far below \<open>2^53\<close>). The bitwise operators convert
  their operands with ToInt32 first; \<open>&&\<close> returns one of its operands, not a
  boolean; \<open>~\<close> applied to a boolean converts it to 0 or 1 first. Two conditions of the
  source mix booleans and numbers under these operators, so the values of such
  expressions are modelled by \<open>jsval\<close>.
\<close>

datatype jsval = JUndefined | JBool bool | JNum int

definition to_int32 :: "int \<Rightarrow> int" where
  "to_int32 x = signed_take_bit 31 x"

fun ToInt32 :: "jsval \<Rightarrow> int" where
  "ToInt32 JUndefined = 0"
| "ToInt32 (JBool b) = (if b then 1 else 0)"
| "ToInt32 (JNum n) = to_int32 n"

fun truthy :: "jsval \<Rightarrow> bool" where
  "truthy JUndefined = False"
| "truthy (JBool b) = b"
| "truthy (JNum n) = (n \<noteq> 0)"

text \<open>\<open>a & b\<close>, \<open>~a\<close>, \<open>a && b\<close> and \<open>!a\<close> on arbitrary values.\<close>

definition js_bitand :: "jsval \<Rightarrow> jsval \<Rightarrow> jsval" where
  "js_bitand a b = JNum (ToInt32 a AND ToInt32 b)"

definition js_bitnot :: "jsval \<Rightarrow> jsval" where
  "js_bitnot a = JNum (NOT (ToInt32 a))"

definition js_land :: "jsval \<Rightarrow> jsval \<Rightarrow> jsval" where
  "js_land a b = (if truthy a then b else a)"

definition js_lnot :: "jsval \<Rightarrow> jsval" where
  "js_lnot a = JBool (\<not> truthy a)"

text \<open>\<open>a & b\<close>, \<open>a | b\<close>, \<open>a ^ b\<close>, \<open>~a\<close> and \<open>a << k\<close> on numbers.\<close>

definition bit_and :: "int \<Rightarrow> int \<Rightarrow> int" where
  "bit_and a b = to_int32 a AND to_int32 b"

definition bit_or :: "int \<Rightarrow> int \<Rightarrow> int" where
  "bit_or a b = to_int32 a OR to_int32 b"

definition bit_xor :: "int \<Rightarrow> int \<Rightarrow> int" where
  "bit_xor a b = to_int32 a XOR to_int32 b"

definition bit_not :: "int \<Rightarrow> int" where
  "bit_not a = NOT (to_int32 a)"

definition shl :: "int \<Rightarrow> nat \<Rightarrow> int" where
  "shl a k = to_int32 (push_bit (k mod 32) (to_int32 a))"

text \<open>\<open>xs[i]\<close>: \<open>undefined\<close> out of range.\<close>

definition js_index :: "int list \<Rightarrow> nat \<Rightarrow> jsval" where
  "js_index xs i = (if i < length xs then JNum (xs ! i) else JUndefined)"

section \<open>Constants of the driver\<close>

definition MAX_LEN :: int where "MAX_LEN = 16"

definition COMMAND_REGISTER :: int where "COMMAND_REGISTER = 0x01"
definition COMMIEN_REGISTER :: int where "COMMIEN_REGISTER = 0x02"
definition COMMIRQ_REGISTER :: int where "COMMIRQ_REGISTER = 0x04"
definition DIVIRQ_REGISTER :: int where "DIVIRQ_REGISTER = 0x05"
definition ERROR_REGISTER :: int where "ERROR_REGISTER = 0x06"
definition STATUS2_REGISTER :: int where "STATUS2_REGISTER = 0x08"
definition FIFODATA_REGISTER :: int where "FIFODATA_REGISTER = 0x09"
definition FIFOLEVEL_REGISTER :: int where "FIFOLEVEL_REGISTER = 0x0A"
definition CONTROL_REGISTER :: int where "CONTROL_REGISTER = 0x0C"
definition BITFRAMING_REGISTER :: int where "BITFRAMING_REGISTER = 0x0D"
definition CRCRESULTM_REGISTER :: int where "CRCRESULTM_REGISTER = 0x21"
definition CRCRESULTL_REGISTER :: int where "CRCRESULTL_REGISTER = 0x22"

definition PCD_IDLE :: int where "PCD_IDLE = 0x00"
definition PCD_CALCCRC :: int where "PCD_CALCCRC = 0x03"
definition PCD_TRANSCEIVE :: int where "PCD_TRANSCEIVE = 0x0C"
definition PCD_AUTHENTICATE :: int where "PCD_AUTHENTICATE = 0x0E"

definition PICC_REQIDL :: int where "PICC_REQIDL = 0x26"
definition PICC_ANTICOLL :: int where "PICC_ANTICOLL = 0x93"
definition PICC_AUTHENT1A :: int where "PICC_AUTHENT1A = 0x60"
definition PICC_READ :: int where "PICC_READ = 0x30"
definition PICC_WRITE :: int where "PICC_WRITE = 0xA0"

definition MI_OK :: int where "MI_OK = 0"
definition MI_NOTAGERR :: int where "MI_NOTAGERR = 1"
definition MI_ERR :: int where "MI_ERR = 2"

section \<open>The SPI transport and the clock\<close>

text \<open>
  The chip is outside the program. A \<open>world\<close> holds the bytes that the coming SPI
  transfers will receive, in order (\<open>script\<close>), and the log of what the driver has
  done so far (\<open>trace\<close>). A transfer takes the next byte of the script; when the script
  is empty the transfer fails, which is the rejected promise of \<open>_readSPI\<close> and
  \<open>_writeSPI\<close>. No method of the class catches it, so the first failed transfer ends the
  call: a script that stops after k bytes is a bus that fails at transfer k + 1.
\<close>

datatype event = Xfer "8 word" "8 word" "8 word" | Wait int

record world =
  script :: "8 word list"
  trace :: "event list"

datatype error = TransportError

type_synonym 'a io = "world \<Rightarrow> error + 'a \<times> world"

definition returnIO :: "'a \<Rightarrow> 'a io" where
  "returnIO x w = Inr (x, w)"

definition bindIO :: "'a io \<Rightarrow> ('a \<Rightarrow> 'b io) \<Rightarrow> 'b io" where
  "bindIO m f w = (case m w of Inl e \<Rightarrow> Inl e | Inr (x, w') \<Rightarrow> f x w')"

text \<open>
  \<open>spi.transfer\<close> with a two-byte send buffer; the result is byte 1 of the receive
  buffer, the only one the driver looks at.
\<close>

definition transfer :: "8 word \<Rightarrow> 8 word \<Rightarrow> (8 word) io" where
  "transfer b0 b1 w =
     (case script w of
        [] \<Rightarrow> Inl TransportError
      | r # rs \<Rightarrow> Inr (r, w\<lparr>script := rs, trace := trace w @ [Xfer b0 b1 r]\<rparr>))"

text \<open>\<open>Buffer.from([a, b])\<close> keeps the low 8 bits of each number.\<close>

definition wr_addr :: "int \<Rightarrow> 8 word" where
  "wr_addr register = word_of_int (bit_and (shl register 1) 0x7E)"

definition rd_addr :: "int \<Rightarrow> 8 word" where
  "rd_addr register = word_of_int (bit_or (bit_and (shl register 1) 0x7E) 0x80)"

definition writeSPI :: "int \<Rightarrow> int \<Rightarrow> unit io" where
  "writeSPI register val =
     bindIO (transfer (wr_addr register) (word_of_int val)) (\<lambda>_. returnIO ())"

definition readSPI :: "int \<Rightarrow> int io" where
  "readSPI register =
     bindIO (transfer (rd_addr register) 0) (\<lambda>r. returnIO (uint r))"

definition wait :: "int \<Rightarrow> unit io" where
  "wait ms w = Inr ((), w\<lparr>trace := trace w @ [Wait ms]\<rparr>)"

section \<open>Register helpers\<close>

definition setBitMask :: "int \<Rightarrow> int \<Rightarrow> unit io" where
  "setBitMask register msk =
     bindIO (readSPI register) (\<lambda>temp. writeSPI register (bit_or temp msk))"

definition clearBitMask :: "int \<Rightarrow> int \<Rightarrow> unit io" where
  "clearBitMask register msk =
     bindIO (readSPI register) (\<lambda>temp. writeSPI register (bit_and temp (bit_not msk)))"

definition idlePCD :: "unit io" where
  "idlePCD = writeSPI COMMAND_REGISTER PCD_IDLE"

text \<open>
  The loops of \<open>_toCard\<close> and \<open>_calculateCRC\<close> that write \<open>data[0]\<close>,
  \<open>data[1]\<close>, ... to the FIFO data register.
\<close>

primrec writeFIFO :: "int list \<Rightarrow> unit io" where
  "writeFIFO [] = returnIO ()"
| "writeFIFO (b # bs) = bindIO (writeSPI FIFODATA_REGISTER b) (\<lambda>_. writeFIFO bs)"

section \<open>The CRC coprocessor\<close>

text \<open>
  The \<open>do ... while (attempts && !(n & 0x04))\<close> loop of \<open>_calculateCRC\<close>
  (lines 195 to 199); it returns the last byte read and the counter. Every
  round reads the script, so the recursion ends with the script at the latest; that it
  ends within 255 rounds when started at 255 is a theorem below.
\<close>

function calculateCRC_poll :: "int \<Rightarrow> (int \<times> int) io" where
  "calculateCRC_poll attempts w =
     (case wait 5 w of
        Inl e \<Rightarrow> Inl e
      | Inr (u, w1) \<Rightarrow>
          (case readSPI DIVIRQ_REGISTER w1 of
             Inl e \<Rightarrow> Inl e
           | Inr (n, w2) \<Rightarrow>
               (let attempts' = attempts - 1 in
                if truthy (js_land (JNum attempts') (js_lnot (JNum (bit_and n 0x04))))
                then calculateCRC_poll attempts' w2
                else Inr ((n, attempts'), w2))))"
  by pat_completeness auto
termination
  by (relation "measure (\<lambda>(a, w). length (script w))")
     (auto simp: wait_def readSPI_def transfer_def bindIO_def returnIO_def
           split: list.splits)

definition calculateCRC :: "int list \<Rightarrow> (int list) io" where
  "calculateCRC buf =
     bindIO (clearBitMask DIVIRQ_REGISTER 0x04) (\<lambda>_.
     bindIO (setBitMask FIFOLEVEL_REGISTER 0x80) (\<lambda>_.
     bindIO idlePCD (\<lambda>_.
     bindIO (writeFIFO buf) (\<lambda>_.
     bindIO (writeSPI COMMAND_REGISTER PCD_CALCCRC) (\<lambda>_.
     bindIO (calculateCRC_poll 0xFF) (\<lambda>(n, attempts).
     bindIO (readSPI CRCRESULTL_REGISTER) (\<lambda>lo.
     bindIO (readSPI CRCRESULTM_REGISTER) (\<lambda>hi.
     returnIO ([] @ [lo] @ [hi])))))))))"

section \<open>The transceive engine\<close>

record result =
  status :: int
  backData :: "int list"
  backLen :: int

text \<open>
  \<open>_toCard\<close> is modelled in pieces, in the order of its text. First the
  \<open>switch (command)\<close> of lines 231 to 241: the pair \<open>(irqEn, waitIRq)\<close>.
\<close>

definition toCard_masks :: "int \<Rightarrow> int \<times> int" where
  "toCard_masks command =
     (if command = PCD_AUTHENTICATE then (0x12, 0x10)
      else if command = PCD_TRANSCEIVE then (0x77, 0x30)
      else (0x00, 0x00))"

text \<open>
  The exit test of the poll loop (line 262),
  \<open>~((i !== 0) && ~(n & 0x01) && ~(n & waitIRq))\<close>, with JavaScript's reading of
  \<open>~\<close> and \<open>&&\<close>.
\<close>

definition toCard_break :: "int \<Rightarrow> int \<Rightarrow> int \<Rightarrow> bool" where
  "toCard_break i n waitIRq =
     truthy (js_bitnot
       (js_land
          (js_land (JBool (i \<noteq> 0)) (js_bitnot (JNum (bit_and n 0x01))))
          (js_bitnot (JNum (bit_and n waitIRq)))))"

text \<open>
  The \<open>while (true)\<close> poll loop of \<open>_toCard\<close> (lines 259 to 266); it returns the last byte read and
  the counter. Every round reads the script, so the recursion ends with the script at the
  latest; how many rounds the loop makes when started at 2000 is a theorem below.
\<close>

function toCard_poll :: "int \<Rightarrow> int \<Rightarrow> (int \<times> int) io" where
  "toCard_poll waitIRq i w =
     (case readSPI COMMIRQ_REGISTER w of
        Inl e \<Rightarrow> Inl e
      | Inr (n, w1) \<Rightarrow>
          (let i' = i - 1 in
           if toCard_break i' n waitIRq then Inr ((n, i'), w1)
           else toCard_poll waitIRq i' w1))"
  by pat_completeness auto
termination
  by (relation "measure (\<lambda>(m, i, w). length (script w))")
     (auto simp: readSPI_def transfer_def bindIO_def returnIO_def split: list.splits)

text \<open>
  The \<open>while (i < n)\<close> loop of lines 298 to 303, which drains the FIFO into
  \<open>backData\<close>.
\<close>

function toCard_drain :: "int \<Rightarrow> int \<Rightarrow> int list \<Rightarrow> (int list) io" where
  "toCard_drain i n bd w =
     (if i < n then
        (case readSPI FIFODATA_REGISTER w of
           Inl e \<Rightarrow> Inl e
         | Inr (fd, w1) \<Rightarrow> toCard_drain (i + 1) n (bd @ [fd]) w1)
      else Inr (bd, w))"
  by pat_completeness auto
termination
  by (relation "measure (\<lambda>(i, n, bd, w). nat (n - i))") auto

text \<open>
  Lines 268 to 312 of \<open>_toCard\<close>: what follows the poll loop, given the last IRQ byte
  \<open>n\<close> and the counter \<open>i\<close> it left.
\<close>

definition toCard_finish :: "int \<Rightarrow> int \<Rightarrow> int \<Rightarrow> int \<Rightarrow> result io" where
  "toCard_finish command irqEn n i =
     bindIO (clearBitMask BITFRAMING_REGISTER 0x80) (\<lambda>_.
     if i \<noteq> 0 then
       bindIO (readSPI ERROR_REGISTER) (\<lambda>ev.
       if bit_and ev 0x1B = 0x00 then
         (let status = (if bit_and (bit_and n irqEn) 0x01 \<noteq> 0 then MI_NOTAGERR else MI_OK) in
          if command = PCD_TRANSCEIVE then
            bindIO (readSPI FIFOLEVEL_REGISTER) (\<lambda>n.
            bindIO (readSPI CONTROL_REGISTER) (\<lambda>c.
            (let lastBits = bit_and c 0x07;
                 backLen = (if lastBits \<noteq> 0 then (n - 1) * 8 + lastBits else n * 8);
                 n1 = (if n = 0 then 1 else n);
                 n2 = (if n1 > MAX_LEN then MAX_LEN else n1) in
             bindIO (toCard_drain 0 n2 []) (\<lambda>bd.
             returnIO \<lparr>status = status, backData = bd, backLen = backLen\<rparr>))))
          else returnIO \<lparr>status = status, backData = [], backLen = 0\<rparr>)
       else returnIO \<lparr>status = MI_ERR, backData = [], backLen = 0\<rparr>)
     else returnIO \<lparr>status = MI_ERR, backData = [], backLen = 0\<rparr>)"

definition toCard :: "int \<Rightarrow> int list \<Rightarrow> result io" where
  "toCard command data =
     (let irqEn = fst (toCard_masks command); waitIRq = snd (toCard_masks command) in
      bindIO (writeSPI COMMIEN_REGISTER (bit_or irqEn 0x80)) (\<lambda>_.
      bindIO (clearBitMask COMMIRQ_REGISTER 0x80) (\<lambda>_.
      bindIO (setBitMask FIFOLEVEL_REGISTER 0x80) (\<lambda>_.
      bindIO (writeSPI COMMAND_REGISTER PCD_IDLE) (\<lambda>_.
      bindIO (writeFIFO data) (\<lambda>_.
      bindIO (writeSPI COMMAND_REGISTER command) (\<lambda>_.
      bindIO (if command = PCD_TRANSCEIVE then setBitMask BITFRAMING_REGISTER 0x80
              else returnIO ()) (\<lambda>_.
      bindIO (toCard_poll waitIRq 2000) (\<lambda>(n, i).
      toCard_finish command irqEn n i)))))))))"

section \<open>The card protocol layer\<close>

definition cardPresent :: "bool io" where
  "cardPresent =
     bindIO (writeSPI BITFRAMING_REGISTER 0x07) (\<lambda>_.
     bindIO (toCard PCD_TRANSCEIVE [PICC_REQIDL]) (\<lambda>r.
     (let r1 = (if status r \<noteq> MI_OK \<or> backLen r \<noteq> 0x10 then r\<lparr>status := MI_ERR\<rparr> else r) in
      returnIO (status r1 = MI_OK))))"

text \<open>\<open>uid.reduce((c, b, i) => (i < 4 ? c ^ b : c), 0)\<close>\<close>

definition uidChecksum :: "int list \<Rightarrow> int" where
  "uidChecksum uid =
     foldl (\<lambda>c (i, b). if i < 4 then bit_xor c b else c) 0 (zip [0..<length uid] uid)"

text \<open>\<open>_antiCollision\<close> returns \<open>false\<close> (here \<open>None\<close>) or the four UID bytes.\<close>

definition antiCollision :: "(int list option) io" where
  "antiCollision =
     bindIO (writeSPI BITFRAMING_REGISTER 0x00) (\<lambda>_.
     bindIO (toCard PCD_TRANSCEIVE [PICC_ANTICOLL, 0x20]) (\<lambda>r.
     if status r \<noteq> MI_OK then returnIO None
     else if length (backData r) \<noteq> 5 then returnIO None
     else if JNum (uidChecksum (take 4 (backData r))) \<noteq> js_index (backData r) 4
       then returnIO None
     else returnIO (Some (take 4 (backData r)))))"

definition auth1A :: "int \<Rightarrow> int list \<Rightarrow> int list \<Rightarrow> bool io" where
  "auth1A sector key uid =
     (let buff = [PICC_AUTHENT1A, sector] @ key @ uid in
      bindIO (toCard PCD_AUTHENTICATE buff) (\<lambda>r.
      if status r \<noteq> MI_OK then returnIO False
      else
        bindIO (readSPI STATUS2_REGISTER) (\<lambda>sr.
        if \<not> truthy (JNum (bit_and sr 0x08)) then returnIO False
        else returnIO True)))"

text \<open>\<open>_readSector\<close> returns \<open>false\<close> (here \<open>None\<close>) or \<open>r.backData\<close>.\<close>

definition readSector :: "int \<Rightarrow> (int list option) io" where
  "readSector sector =
     (let recvData = [PICC_READ, sector] in
      bindIO (calculateCRC recvData) (\<lambda>crc.
      bindIO (toCard PCD_TRANSCEIVE (recvData @ crc)) (\<lambda>r.
      if status r \<noteq> MI_OK then returnIO None
      else returnIO (Some (backData r)))))"

text \<open>
  The two acknowledgment tests of \<open>_writeSector\<close> (lines 171 and 178). In the first,
  \<open>r.backData[0] & 0x0F !== 0x0A\<close>, the comparison binds tighter than \<open>&\<close>: it is
  \<open>r.backData[0] & (0x0F !== 0x0A)\<close>. The second is parenthesised,
  \<open>(r.backData[0] & 0x0F) !== 0x0A\<close>. \<open>||\<close> is evaluated left to right.
\<close>

definition writeSector_reject1 :: "result \<Rightarrow> bool" where
  "writeSector_reject1 r =
     (if status r \<noteq> MI_OK then True
      else if backLen r \<noteq> 4 then True
      else truthy (js_bitand (js_index (backData r) 0) (JBool ((0x0F::int) \<noteq> 0x0A))))"

definition writeSector_reject2 :: "result \<Rightarrow> bool" where
  "writeSector_reject2 r =
     (if status r \<noteq> MI_OK then True
      else if backLen r \<noteq> 4 then True
      else js_bitand (js_index (backData r) 0) (JNum 0x0F) \<noteq> JNum 0x0A)"

definition writeSector :: "int \<Rightarrow> int list \<Rightarrow> bool io" where
  "writeSector sector data =
     (let buff = [PICC_WRITE, sector] in
      bindIO (calculateCRC buff) (\<lambda>crc.
      bindIO (toCard PCD_TRANSCEIVE (buff @ crc)) (\<lambda>r.
      if writeSector_reject1 r then returnIO False
      else if status r = MI_OK then
        (let buff2 = [] @ data in
         bindIO (calculateCRC buff2) (\<lambda>crc2.
         bindIO (toCard PCD_TRANSCEIVE (buff2 @ crc2)) (\<lambda>r2.
         if writeSector_reject2 r2 then returnIO False
         else returnIO True)))
      else returnIO True)))"

section \<open>Vocabulary for traces\<close>

text \<open>
  The log entries of a register read and of a register write, and the entries that the
  loops of the driver leave for a list of received bytes. They are used to state what a
  call did on the bus.
\<close>

abbreviation rd :: "int \<Rightarrow> 8 word \<Rightarrow> event" where
  "rd r b \<equiv> Xfer (rd_addr r) 0 b"

abbreviation wr :: "int \<Rightarrow> int \<Rightarrow> 8 word \<Rightarrow> event" where
  "wr r v b \<equiv> Xfer (wr_addr r) (word_of_int v) b"

definition fifo_writes :: "int list \<Rightarrow> 8 word list \<Rightarrow> event list" where
  "fifo_writes data rs =
     map (\<lambda>(d, r). Xfer (wr_addr FIFODATA_REGISTER) (word_of_int d) r) (zip data rs)"

definition fifo_reads :: "8 word list \<Rightarrow> event list" where
  "fifo_reads rs = map (Xfer (rd_addr FIFODATA_REGISTER) 0) rs"

definition irq_polls :: "8 word list \<Rightarrow> event list" where
  "irq_polls rs = map (Xfer (rd_addr COMMIRQ_REGISTER) 0) rs"

definition crc_polls :: "8 word list \<Rightarrow> event list" where
  "crc_polls rs = concat (map (\<lambda>b. [Wait 5, Xfer (rd_addr DIVIRQ_REGISTER) 0 b]) rs)"

text \<open>The number of bytes \<open>_toCard\<close> drains when the FIFO level register reads \<open>lvl\<close>.\<close>

definition clampN :: "8 word \<Rightarrow> nat" where
  "clampN lvl = min 16 (max 1 (unat lvl))"

declare toCard_poll.simps [simp del]
declare toCard_drain.simps [simp del]
declare calculateCRC_poll.simps [simp del]

section \<open>JavaScript arithmetic on bytes\<close>

lemma to_int32_id: "- 2147483648 \<le> x \<Longrightarrow> x < 2147483648 \<Longrightarrow> to_int32 x = x"
  unfolding to_int32_def by (rule signed_take_bit_int_eq_self) simp_all

lemma uint8_bounds: "0 \<le> uint (b :: 8 word)" "uint (b :: 8 word) < 256"
  using uint_lt2p [of b] by simp_all

lemma to_int32_uint8 [simp]: "to_int32 (uint (b :: 8 word)) = uint b"
  using uint8_bounds [of b] by (intro to_int32_id) linarith+

lemma to_int32_numeral [simp]:
  "numeral k < (2147483648::int) \<Longrightarrow> to_int32 (numeral k) = numeral k"
  by (rule to_int32_id) simp_all

lemma to_int32_0 [simp]: "to_int32 0 = 0" and to_int32_1 [simp]: "to_int32 1 = 1"
  by (simp_all add: to_int32_id)

lemma and_byte_bounds: "0 \<le> uint (b :: 8 word) AND m" "uint (b :: 8 word) AND m < 256"
proof -
  show "0 \<le> uint b AND m" by simp
  have "uint b AND m \<le> uint b" by (rule AND_upper1) simp
  then show "uint b AND m < 256" using uint8_bounds(2) [of b] by linarith
qed

lemma to_int32_and_byte [simp]: "to_int32 (uint (b :: 8 word) AND m) = uint b AND m"
  using and_byte_bounds [of b m] by (intro to_int32_id) linarith+

lemma break_core:
  assumes "0 \<le> x" "x < 256" "0 \<le> y" "y < 256"
  shows "truthy (js_bitnot (js_land (js_land (JBool c) (js_bitnot (JNum x))) (js_bitnot (JNum y))))
         \<longleftrightarrow> \<not> c \<or> y \<noteq> 0"
  using assms by (simp add: js_land_def js_bitnot_def to_int32_id not_int_def)

lemma toCard_break_iff:
  assumes "- 2147483648 \<le> m" "m < 2147483648"
  shows "toCard_break i (uint (b :: 8 word)) m \<longleftrightarrow> i = 0 \<or> uint b AND m \<noteq> 0"
proof -
  have m: "to_int32 m = m" using assms by (rule to_int32_id)
  have "toCard_break i (uint b) m \<longleftrightarrow> \<not> (i \<noteq> 0) \<or> (uint b AND m) \<noteq> 0"
    unfolding toCard_break_def bit_and_def m to_int32_uint8 to_int32_1
    by (rule break_core) (rule and_byte_bounds)+
  then show ?thesis by simp
qed



section \<open>Running the transport on a known script\<close>

lemma transfer_Cons [simp]:
  "transfer a v \<lparr>script = b # bs, trace = t\<rparr> = Inr (b, \<lparr>script = bs, trace = t @ [Xfer a v b]\<rparr>)"
  by (simp add: transfer_def)

lemma transfer_Nil [simp]: "transfer a v \<lparr>script = [], trace = t\<rparr> = Inl TransportError"
  by (simp add: transfer_def)

lemma readSPI_Cons [simp]:
  "readSPI r \<lparr>script = b # bs, trace = t\<rparr>
     = Inr (uint b, \<lparr>script = bs, trace = t @ [Xfer (rd_addr r) 0 b]\<rparr>)"
  by (simp add: readSPI_def bindIO_def returnIO_def)

lemma readSPI_Nil [simp]: "readSPI r \<lparr>script = [], trace = t\<rparr> = Inl TransportError"
  by (simp add: readSPI_def bindIO_def)

lemma writeSPI_Cons [simp]:
  "writeSPI r v \<lparr>script = b # bs, trace = t\<rparr>
     = Inr ((), \<lparr>script = bs, trace = t @ [Xfer (wr_addr r) (word_of_int v) b]\<rparr>)"
  by (simp add: writeSPI_def bindIO_def returnIO_def)

lemma writeSPI_Nil [simp]: "writeSPI r v \<lparr>script = [], trace = t\<rparr> = Inl TransportError"
  by (simp add: writeSPI_def bindIO_def)

lemma wait_run [simp]: "wait ms \<lparr>script = s, trace = t\<rparr> = Inr ((), \<lparr>script = s, trace = t @ [Wait ms]\<rparr>)"
  by (simp add: wait_def)

lemma setBitMask_run [simp]:
  "setBitMask r m \<lparr>script = b # c # bs, trace = t\<rparr>
     = Inr ((), \<lparr>script = bs,
          trace = t @ [Xfer (rd_addr r) 0 b, Xfer (wr_addr r) (word_of_int (bit_or (uint b) m)) c]\<rparr>)"
  by (simp add: setBitMask_def bindIO_def)

lemma clearBitMask_run [simp]:
  "clearBitMask r m \<lparr>script = b # c # bs, trace = t\<rparr>
     = Inr ((), \<lparr>script = bs,
          trace = t @ [Xfer (rd_addr r) 0 b,
                       Xfer (wr_addr r) (word_of_int (bit_and (uint b) (bit_not m))) c]\<rparr>)"
  by (simp add: clearBitMask_def bindIO_def)

lemma writeFIFO_run:
  "length rs = length data \<Longrightarrow>
   writeFIFO data \<lparr>script = rs @ rest, trace = t\<rparr>
     = Inr ((), \<lparr>script = rest, trace = t @ fifo_writes data rs\<rparr>)"
proof (induction data arbitrary: rs t)
  case Nil
  then show ?case by (simp add: returnIO_def fifo_writes_def)
next
  case (Cons d data)
  then obtain r rs' where rs: "rs = r # rs'" "length rs' = length data"
    by (cases rs) auto
  show ?case
    using Cons.IH [OF rs(2)] by (simp add: rs bindIO_def fifo_writes_def)
qed

lemma toCard_poll_run:
  assumes "- 2147483648 \<le> m" "m < 2147483648"
  shows "\<forall>p\<in>set polls. uint p AND m = 0 \<Longrightarrow> int (length polls) + 1 \<le> i \<Longrightarrow>
    uint fin AND m \<noteq> 0 \<or> int (length polls) + 1 = i \<Longrightarrow>
    toCard_poll m i \<lparr>script = polls @ fin # rest, trace = t\<rparr>
      = Inr ((uint fin, i - 1 - int (length polls)),
             \<lparr>script = rest, trace = t @ irq_polls (polls @ [fin])\<rparr>)"
proof (induction polls arbitrary: i t)
  case Nil
  then show ?case
    by (subst toCard_poll.simps) (auto simp: Let_def toCard_break_iff [OF assms] irq_polls_def)
next
  case (Cons p polls)
  have np: "uint p AND m = 0" and rest: "\<forall>q\<in>set polls. uint q AND m = 0"
    using Cons.prems(1) by simp_all
  have i: "i \<noteq> 1" "int (length polls) + 1 \<le> i - 1"
    using Cons.prems(2) by simp_all
  have fin: "uint fin AND m \<noteq> 0 \<or> int (length polls) + 1 = i - 1"
    using Cons.prems(3) by auto
  have "toCard_poll m i \<lparr>script = (p # polls) @ fin # rest, trace = t\<rparr>
      = toCard_poll m (i - 1) \<lparr>script = polls @ fin # rest,
            trace = t @ [Xfer (rd_addr COMMIRQ_REGISTER) 0 p]\<rparr>"
    using i(1) by (subst toCard_poll.simps) (simp add: Let_def toCard_break_iff [OF assms] np)
  also have "\<dots> = Inr ((uint fin, i - 1 - 1 - int (length polls)),
             \<lparr>script = rest, trace = (t @ [Xfer (rd_addr COMMIRQ_REGISTER) 0 p])
                 @ irq_polls (polls @ [fin])\<rparr>)"
    by (rule Cons.IH [OF rest i(2) fin])
  finally show ?case by (simp add: irq_polls_def)
qed

lemma toCard_drain_run:
  "int (length xs) = n - i \<Longrightarrow>
   toCard_drain i n bd \<lparr>script = xs @ rest, trace = t\<rparr>
     = Inr (bd @ map uint xs, \<lparr>script = rest, trace = t @ fifo_reads xs\<rparr>)"
proof (induction xs arbitrary: i bd t)
  case Nil
  then show ?case by (subst toCard_drain.simps) (simp add: fifo_reads_def)
next
  case (Cons x xs)
  have "int (length xs) = n - (i + 1)" and "i < n" using Cons.prems by simp_all
  then show ?case
    using Cons.IH [of "i + 1" "bd @ [uint x]" "t @ [Xfer (rd_addr FIFODATA_REGISTER) 0 x]"]
    by (subst toCard_drain.simps) (simp add: fifo_reads_def)
qed



section \<open>Runs of the transceive engine\<close>

lemma masks [simp]:
  "toCard_masks PCD_TRANSCEIVE = (0x77, 0x30)"
  "toCard_masks PCD_AUTHENTICATE = (0x12, 0x10)"
  "c \<noteq> PCD_TRANSCEIVE \<Longrightarrow> c \<noteq> PCD_AUTHENTICATE \<Longrightarrow> toCard_masks c = (0, 0)"
  by (simp_all add: toCard_masks_def PCD_TRANSCEIVE_def PCD_AUTHENTICATE_def)

lemma toCard_finish_transceive:
  assumes "i \<noteq> 0" "uint ev AND 0x1B = 0" "length xs = clampN lvl"
  shows "toCard_finish PCD_TRANSCEIVE irqEn n i
           \<lparr>script = bf # x # ev # lvl # ctl # xs @ rest, trace = t\<rparr>
     = Inr (\<lparr>status = (if bit_and (bit_and n irqEn) 0x01 \<noteq> 0 then MI_NOTAGERR else MI_OK),
             backData = map uint xs,
             backLen = (if uint ctl AND 0x07 \<noteq> 0 then (uint lvl - 1) * 8 + (uint ctl AND 0x07)
                        else uint lvl * 8)\<rparr>,
            \<lparr>script = rest,
             trace = t @ [rd BITFRAMING_REGISTER bf,
                          wr BITFRAMING_REGISTER (bit_and (uint bf) (bit_not 0x80)) x,
                          rd ERROR_REGISTER ev, rd FIFOLEVEL_REGISTER lvl,
                          rd CONTROL_REGISTER ctl] @ fifo_reads xs\<rparr>)"
proof -
  have n2: "int (length xs) = (if (if uint lvl = 0 then 1 else uint lvl) > MAX_LEN then MAX_LEN
                else (if uint lvl = 0 then 1 else uint lvl)) - 0"
  proof -
    define k where "k = unat lvl"
    have u: "uint lvl = int k" by (simp add: k_def)
    have "int (min 16 (max 1 k)) = (if (if int k = 0 then 1 else int k) > 16 then 16
                else (if int k = 0 then 1 else int k)) - 0"
      by auto
    then show ?thesis unfolding u assms(3) clampN_def MAX_LEN_def k_def [symmetric] .
  qed
  show ?thesis
    using assms(1,2)
    by (simp add: toCard_finish_def bindIO_def returnIO_def bit_and_def Let_def
          toCard_drain_run [OF n2])
qed

lemma masked_timer: "bit_and (bit_and (uint (h :: 8 word)) 0x77) 0x01 = uint h AND 1"
proof -
  have "(uint h AND 0x77) AND 1 = uint h AND (0x77 AND 1)" by (simp only: and.assoc)
  then show ?thesis by (simp add: bit_and_def)
qed

lemma toCard_transceive_run:
  assumes ds: "length ds = length data"
    and polls: "\<forall>p\<in>set polls. uint p AND 0x30 = 0" "length polls < 1999"
    and hit: "uint hit AND 0x30 \<noteq> 0"
    and ev: "uint ev AND 0x1B = 0"
    and xs: "length xs = clampN lvl"
  shows "toCard PCD_TRANSCEIVE data
           \<lparr>script = c0 # c1 # c2 # c3 # c4 # c5 # ds @ c6 # c7 # c8 # polls
                       @ hit # bf # x # ev # lvl # ctl # xs @ rest,
            trace = t\<rparr>
     = Inr (\<lparr>status = (if uint hit AND 0x01 \<noteq> 0 then MI_NOTAGERR else MI_OK),
             backData = map uint xs,
             backLen = (if uint ctl AND 0x07 \<noteq> 0 then (uint lvl - 1) * 8 + (uint ctl AND 0x07)
                        else uint lvl * 8)\<rparr>,
            \<lparr>script = rest,
             trace = t @ [wr COMMIEN_REGISTER 0xF7 c0,
                          rd COMMIRQ_REGISTER c1,
                          wr COMMIRQ_REGISTER (bit_and (uint c1) (bit_not 0x80)) c2,
                          rd FIFOLEVEL_REGISTER c3,
                          wr FIFOLEVEL_REGISTER (bit_or (uint c3) 0x80) c4,
                          wr COMMAND_REGISTER PCD_IDLE c5]
                       @ fifo_writes data ds
                       @ [wr COMMAND_REGISTER PCD_TRANSCEIVE c6,
                          rd BITFRAMING_REGISTER c7,
                          wr BITFRAMING_REGISTER (bit_or (uint c7) 0x80) c8]
                       @ irq_polls (polls @ [hit])
                       @ [rd BITFRAMING_REGISTER bf,
                          wr BITFRAMING_REGISTER (bit_and (uint bf) (bit_not 0x80)) x,
                          rd ERROR_REGISTER ev, rd FIFOLEVEL_REGISTER lvl,
                          rd CONTROL_REGISTER ctl]
                       @ fifo_reads xs\<rparr>)"
proof -
  have p1: "int (length polls) + 1 \<le> 2000" and p2: "1999 - int (length polls) \<noteq> 0"
    using polls(2) by simp_all
  have h: "uint hit AND 0x30 \<noteq> 0 \<or> int (length polls) + 1 = 2000" using hit by simp
  note poll = toCard_poll_run [where m = "0x30" and i = 2000, OF _ _ polls(1) p1 h, simplified]
  note fin = toCard_finish_transceive [OF p2 ev xs]
  show ?thesis
    by (simp add: toCard_def Let_def bindIO_def writeFIFO_run [OF ds] poll fin masked_timer
          bit_or_def)
qed

section \<open>What a returned call implies\<close>

lemma bindIO_Inr_iff:
  "bindIO m f w = Inr (y, w') \<longleftrightarrow> (\<exists>x w1. m w = Inr (x, w1) \<and> f x w1 = Inr (y, w'))"
  by (auto simp: bindIO_def split: sum.splits)

lemma returnIO_Inr_iff: "returnIO x w = Inr (y, w') \<longleftrightarrow> y = x \<and> w' = w"
  by (auto simp: returnIO_def)

lemma readSPI_byte: "readSPI r w = Inr (v, w1) \<Longrightarrow> 0 \<le> v \<and> v < 256"
  using uint8_bounds by (auto simp: readSPI_def bindIO_Inr_iff returnIO_Inr_iff)

lemma toCard_drain_inv:
  "toCard_drain i n bd w = Inr (bd', w') \<Longrightarrow>
   length bd' = length bd + nat (n - i) \<and>
   ((\<forall>b\<in>set bd. 0 \<le> b \<and> b < 256) \<longrightarrow> (\<forall>b\<in>set bd'. 0 \<le> b \<and> b < 256))"
proof (induction i n bd w rule: toCard_drain.induct)
  case (1 i n bd w)
  show ?case
  proof (cases "i < n")
    case False
    with "1.prems" show ?thesis by (simp add: toCard_drain.simps [of i n bd w])
  next
    case True
    with "1.prems" obtain fd w1 where
      rd: "readSPI FIFODATA_REGISTER w = Inr (fd, w1)" and
      rec: "toCard_drain (i + 1) n (bd @ [fd]) w1 = Inr (bd', w')"
      by (auto simp: toCard_drain.simps [of i n bd w] split: sum.splits)
    have ih: "length bd' = length (bd @ [fd]) + nat (n - (i + 1)) \<and>
       ((\<forall>b\<in>set (bd @ [fd]). 0 \<le> b \<and> b < 256) \<longrightarrow> (\<forall>b\<in>set bd'. 0 \<le> b \<and> b < 256))"
      by (rule "1.IH" [OF True rd refl rec])
    have len: "length bd' = length bd + nat (n - i)" using ih True by simp
    have "(\<forall>b\<in>set bd. 0 \<le> b \<and> b < 256) \<longrightarrow> (\<forall>b\<in>set bd'. 0 \<le> b \<and> b < 256)"
      using ih readSPI_byte [OF rd] by simp
    with len show ?thesis by simp
  qed
qed

lemma clamp_bounds:
  assumes "0 \<le> v"
  shows "1 \<le> nat ((if (if v = 0 then 1 else v) > MAX_LEN then MAX_LEN
                else (if v = 0 then 1 else v)) - 0) \<and>
         nat ((if (if v = 0 then 1 else v) > MAX_LEN then MAX_LEN
                else (if v = 0 then 1 else v)) - 0) \<le> 16"
  using assms by (auto simp: MAX_LEN_def)

lemma toCard_finish_inv:
  assumes "toCard_finish command irqEn n i w = Inr (r, w')"
  shows "(\<forall>b\<in>set (backData r). 0 \<le> b \<and> b < 256) \<and>
    (if status r = MI_ERR then backData r = [] \<and> backLen r = 0
     else i \<noteq> 0 \<and> (status r = MI_OK \<or> status r = MI_NOTAGERR) \<and>
       (if command = PCD_TRANSCEIVE
        then 1 \<le> length (backData r) \<and> length (backData r) \<le> 16
        else backData r = [] \<and> backLen r = 0))"
proof -
  let ?err = "\<lparr>status = MI_ERR, backData = [], backLen = 0\<rparr>"
  have st: "MI_OK \<noteq> MI_ERR" "MI_NOTAGERR \<noteq> MI_ERR"
    by (simp_all add: MI_OK_def MI_ERR_def MI_NOTAGERR_def)
  from assms obtain w1 where
    rest: "(if i \<noteq> 0 then
       bindIO (readSPI ERROR_REGISTER) (\<lambda>ev.
       if bit_and ev 0x1B = 0x00 then
         (let status = (if bit_and (bit_and n irqEn) 0x01 \<noteq> 0 then MI_NOTAGERR else MI_OK) in
          if command = PCD_TRANSCEIVE then
            bindIO (readSPI FIFOLEVEL_REGISTER) (\<lambda>n.
            bindIO (readSPI CONTROL_REGISTER) (\<lambda>c.
            (let lastBits = bit_and c 0x07;
                 backLen = (if lastBits \<noteq> 0 then (n - 1) * 8 + lastBits else n * 8);
                 n1 = (if n = 0 then 1 else n);
                 n2 = (if n1 > MAX_LEN then MAX_LEN else n1) in
             bindIO (toCard_drain 0 n2 []) (\<lambda>bd.
             returnIO \<lparr>status = status, backData = bd, backLen = backLen\<rparr>))))
          else returnIO \<lparr>status = status, backData = [], backLen = 0\<rparr>)
       else returnIO ?err)
     else returnIO ?err) w1 = Inr (r, w')"
    unfolding toCard_finish_def bindIO_Inr_iff by blast
  show ?thesis
  proof (cases "i = 0")
    case True
    with rest have "r = ?err" by (simp add: returnIO_Inr_iff)
    then show ?thesis by simp
  next
    case i: False
    with rest obtain ev w2 where
      rest2: "(if bit_and ev 0x1B = 0x00 then
         (let status = (if bit_and (bit_and n irqEn) 0x01 \<noteq> 0 then MI_NOTAGERR else MI_OK) in
          if command = PCD_TRANSCEIVE then
            bindIO (readSPI FIFOLEVEL_REGISTER) (\<lambda>n.
            bindIO (readSPI CONTROL_REGISTER) (\<lambda>c.
            (let lastBits = bit_and c 0x07;
                 backLen = (if lastBits \<noteq> 0 then (n - 1) * 8 + lastBits else n * 8);
                 n1 = (if n = 0 then 1 else n);
                 n2 = (if n1 > MAX_LEN then MAX_LEN else n1) in
             bindIO (toCard_drain 0 n2 []) (\<lambda>bd.
             returnIO \<lparr>status = status, backData = bd, backLen = backLen\<rparr>))))
          else returnIO \<lparr>status = status, backData = [], backLen = 0\<rparr>)
       else returnIO ?err) w2 = Inr (r, w')"
      by (simp add: bindIO_Inr_iff) blast
    show ?thesis
    proof (cases "bit_and ev 0x1B = 0x00")
      case False
      with rest2 have "r = ?err" by (simp add: returnIO_Inr_iff)
      then show ?thesis by simp
    next
      case ok: True
      define st0 where "st0 = (if bit_and (bit_and n irqEn) 0x01 \<noteq> 0 then MI_NOTAGERR else MI_OK)"
      have st0: "st0 \<noteq> MI_ERR" "st0 = MI_OK \<or> st0 = MI_NOTAGERR"
        using st by (simp_all add: st0_def)
      show ?thesis
      proof (cases "command = PCD_TRANSCEIVE")
        case False
        with rest2 ok have "r = \<lparr>status = st0, backData = [], backLen = 0\<rparr>"
          by (simp add: returnIO_Inr_iff Let_def st0_def)
        with st0 i False show ?thesis by auto
      next
        case True
        with rest2 ok obtain lvl w3 c w4 bd where
          lvl: "readSPI FIFOLEVEL_REGISTER w2 = Inr (lvl, w3)" and
          dr: "toCard_drain 0 (if (if lvl = 0 then 1 else lvl) > MAX_LEN then MAX_LEN
                else (if lvl = 0 then 1 else lvl)) [] w4 = Inr (bd, w')" and
          r: "status r = st0" "backData r = bd"
          by (auto simp: Let_def bindIO_Inr_iff returnIO_Inr_iff st0_def simp del: One_nat_def)
        have "0 \<le> lvl" using readSPI_byte [OF lvl] by simp
        from clamp_bounds [OF this] toCard_drain_inv [OF dr]
        have "1 \<le> length bd \<and> length bd \<le> 16" "\<forall>b\<in>set bd. 0 \<le> b \<and> b < 256"
          by simp_all
        with r st0 i True show ?thesis by auto
      qed
    qed
  qed
qed

lemma toCard_inv:
  assumes "toCard command data w = Inr (r, w')"
  obtains n i w0 w1 where
    "toCard_poll (snd (toCard_masks command)) 2000 w0 = Inr ((n, i), w1)"
    "toCard_finish command (fst (toCard_masks command)) n i w1 = Inr (r, w')"
  using assms unfolding toCard_def Let_def bindIO_Inr_iff by auto

lemma toCard_result:
  assumes "toCard command data w = Inr (r, w')"
  shows "(\<forall>b\<in>set (backData r). 0 \<le> b \<and> b < 256) \<and>
    (if status r = MI_ERR then backData r = [] \<and> backLen r = 0
     else (status r = MI_OK \<or> status r = MI_NOTAGERR) \<and>
       (if command = PCD_TRANSCEIVE
        then 1 \<le> length (backData r) \<and> length (backData r) \<le> 16
        else backData r = [] \<and> backLen r = 0))"
proof -
  from assms obtain n i w0 w1 where
    "toCard_finish command (fst (toCard_masks command)) n i w1 = Inr (r, w')"
    by (rule toCard_inv)
  from toCard_finish_inv [OF this] show ?thesis by (simp split: if_splits)
qed

lemma readSPI_inv:
  assumes "readSPI r w = Inr (v, w1)"
  obtains b where "v = uint b" "script w = b # script w1" "trace w1 = trace w @ [rd r b]"
  using assms
  by (auto simp: readSPI_def transfer_def bindIO_Inr_iff returnIO_Inr_iff split: list.splits)

lemma toCard_poll_zero_mask:
  "toCard_poll 0 i w = Inr ((n, i'), w') \<Longrightarrow> i' = 0"
proof (induction "0::int" i w rule: toCard_poll.induct)
  case (1 i w)
  from "1.prems" obtain v w1 where
    rd: "readSPI COMMIRQ_REGISTER w = Inr (v, w1)" and
    rest: "(if toCard_break (i - 1) v 0 then Inr ((v, i - 1), w1)
            else toCard_poll 0 (i - 1) w1) = Inr ((n, i'), w')"
    by (auto simp: toCard_poll.simps [of 0 i w] Let_def split: sum.splits)
  from rd obtain b :: "8 word" where v: "v = uint b" by (rule readSPI_inv)
  have br: "toCard_break (i - 1) v 0 \<longleftrightarrow> i - 1 = 0"
    unfolding v by (subst toCard_break_iff) simp_all
  show ?case
  proof (cases "i - 1 = 0")
    case True
    with rest br show ?thesis by simp
  next
    case False
    with rest br have "toCard_poll 0 (i - 1) w1 = Inr ((n, i'), w')" by simp
    moreover have "\<not> toCard_break (i - 1) v 0" using False br by simp
    ultimately show ?thesis using "1.hyps" [OF rd refl refl] by simp
  qed
qed

lemma toCard_finish_timeout:
  "toCard_finish command irqEn n 0 \<lparr>script = bf # x # rest, trace = t\<rparr>
     = Inr (\<lparr>status = MI_ERR, backData = [], backLen = 0\<rparr>,
            \<lparr>script = rest,
             trace = t @ [rd BITFRAMING_REGISTER bf,
                          wr BITFRAMING_REGISTER (bit_and (uint bf) (bit_not 0x80)) x]\<rparr>)"
  by (simp add: toCard_finish_def bindIO_def returnIO_def)

lemma toCard_other_run:
  assumes cmd: "command \<noteq> PCD_TRANSCEIVE" "command \<noteq> PCD_AUTHENTICATE"
    and ds: "length ds = length data" and polls: "length polls = 2000"
  shows "toCard command data
           \<lparr>script = c0 # c1 # c2 # c3 # c4 # c5 # ds @ c6 # polls @ bf # x # rest,
            trace = t\<rparr>
     = Inr (\<lparr>status = MI_ERR, backData = [], backLen = 0\<rparr>,
            \<lparr>script = rest,
             trace = t @ [wr COMMIEN_REGISTER 0x80 c0,
                          rd COMMIRQ_REGISTER c1,
                          wr COMMIRQ_REGISTER (bit_and (uint c1) (bit_not 0x80)) c2,
                          rd FIFOLEVEL_REGISTER c3,
                          wr FIFOLEVEL_REGISTER (bit_or (uint c3) 0x80) c4,
                          wr COMMAND_REGISTER PCD_IDLE c5]
                       @ fifo_writes data ds
                       @ [wr COMMAND_REGISTER command c6]
                       @ irq_polls polls
                       @ [rd BITFRAMING_REGISTER bf,
                          wr BITFRAMING_REGISTER (bit_and (uint bf) (bit_not 0x80)) x]\<rparr>)"
proof -
  from polls have ne: "polls \<noteq> []" by auto
  then have split: "polls = butlast polls @ [last polls]" by simp
  have len: "int (length (butlast polls)) + 1 \<le> 2000"
    and fin: "uint (last polls) AND 0 \<noteq> 0 \<or> int (length (butlast polls)) + 1 = 2000"
    using polls by simp_all
  have "toCard_poll 0 2000 \<lparr>script = (butlast polls @ [last polls]) @ bf # x # rest, trace = t'\<rparr>
      = Inr ((uint (last polls), 0),
             \<lparr>script = bf # x # rest, trace = t' @ irq_polls (butlast polls @ [last polls])\<rparr>)"
    for t'
    using toCard_poll_run [where m = 0 and i = 2000 and polls = "butlast polls"
        and fin = "last polls" and rest = "bf # x # rest" and t = t', OF _ _ _ len fin] polls
    by simp
  then have poll: "toCard_poll 0 2000 \<lparr>script = polls @ bf # x # rest, trace = t'\<rparr>
      = Inr ((uint (last polls), 0), \<lparr>script = bf # x # rest, trace = t' @ irq_polls polls\<rparr>)"
    for t'
    using split by simp
  show ?thesis
    using cmd
    by (simp add: toCard_def Let_def bindIO_def returnIO_def writeFIFO_run [OF ds] poll
          toCard_finish_timeout bit_or_def)
qed

lemma toCard_transceive_timeout_run:
  assumes ds: "length ds = length data" and polls: "length polls = 2000"
    and quiet: "\<forall>p\<in>set polls. uint p AND 0x30 = 0"
  shows "toCard PCD_TRANSCEIVE data
           \<lparr>script = c0 # c1 # c2 # c3 # c4 # c5 # ds @ c6 # c7 # c8 # polls @ bf # x # rest,
            trace = t\<rparr>
     = Inr (\<lparr>status = MI_ERR, backData = [], backLen = 0\<rparr>,
            \<lparr>script = rest,
             trace = t @ [wr COMMIEN_REGISTER 0xF7 c0,
                          rd COMMIRQ_REGISTER c1,
                          wr COMMIRQ_REGISTER (bit_and (uint c1) (bit_not 0x80)) c2,
                          rd FIFOLEVEL_REGISTER c3,
                          wr FIFOLEVEL_REGISTER (bit_or (uint c3) 0x80) c4,
                          wr COMMAND_REGISTER PCD_IDLE c5]
                       @ fifo_writes data ds
                       @ [wr COMMAND_REGISTER PCD_TRANSCEIVE c6,
                          rd BITFRAMING_REGISTER c7,
                          wr BITFRAMING_REGISTER (bit_or (uint c7) 0x80) c8]
                       @ irq_polls polls
                       @ [rd BITFRAMING_REGISTER bf,
                          wr BITFRAMING_REGISTER (bit_and (uint bf) (bit_not 0x80)) x]\<rparr>)"
proof -
  from polls have ne: "polls \<noteq> []" by auto
  then have split: "polls = butlast polls @ [last polls]" by simp
  have len: "int (length (butlast polls)) + 1 \<le> 2000"
    and fin: "uint (last polls) AND 0x30 \<noteq> 0 \<or> int (length (butlast polls)) + 1 = 2000"
    using polls by simp_all
  have q: "\<forall>p\<in>set (butlast polls). uint p AND 0x30 = 0"
    using quiet by (auto dest: in_set_butlastD)
  have "toCard_poll 0x30 2000 \<lparr>script = (butlast polls @ [last polls]) @ bf # x # rest, trace = t'\<rparr>
      = Inr ((uint (last polls), 0),
             \<lparr>script = bf # x # rest, trace = t' @ irq_polls (butlast polls @ [last polls])\<rparr>)"
    for t'
    using toCard_poll_run [where m = "0x30" and i = 2000 and polls = "butlast polls"
        and fin = "last polls" and rest = "bf # x # rest" and t = t', OF _ _ q len fin] polls
    by simp
  then have poll: "toCard_poll 0x30 2000 \<lparr>script = polls @ bf # x # rest, trace = t'\<rparr>
      = Inr ((uint (last polls), 0), \<lparr>script = bf # x # rest, trace = t' @ irq_polls polls\<rparr>)"
    for t'
    using split by simp
  show ?thesis
    by (simp add: toCard_def Let_def bindIO_def returnIO_def writeFIFO_run [OF ds] poll
          toCard_finish_timeout bit_or_def)
qed

section \<open>Runs of the CRC coprocessor\<close>

lemma crc_continue_iff:
  "truthy (js_land (JNum a) (js_lnot (JNum (bit_and (uint (b :: 8 word)) 0x04))))
     \<longleftrightarrow> a \<noteq> 0 \<and> uint b AND 4 = 0"
  by (simp add: js_land_def js_lnot_def bit_and_def)

lemma calculateCRC_poll_run:
  "\<forall>p\<in>set polls. uint p AND 4 = 0 \<Longrightarrow> int (length polls) + 1 \<le> a \<Longrightarrow>
    uint fin AND 4 \<noteq> 0 \<or> int (length polls) + 1 = a \<Longrightarrow>
    calculateCRC_poll a \<lparr>script = polls @ fin # rest, trace = t\<rparr>
      = Inr ((uint fin, a - 1 - int (length polls)),
             \<lparr>script = rest, trace = t @ crc_polls (polls @ [fin])\<rparr>)"
proof (induction polls arbitrary: a t)
  case Nil
  then show ?case
    by (subst calculateCRC_poll.simps) (auto simp: Let_def crc_continue_iff crc_polls_def)
next
  case (Cons p polls)
  have np: "uint p AND 4 = 0" and rest: "\<forall>q\<in>set polls. uint q AND 4 = 0"
    using Cons.prems(1) by simp_all
  have a: "a \<noteq> 1" "int (length polls) + 1 \<le> a - 1"
    using Cons.prems(2) by simp_all
  have fin: "uint fin AND 4 \<noteq> 0 \<or> int (length polls) + 1 = a - 1"
    using Cons.prems(3) by auto
  have "calculateCRC_poll a \<lparr>script = (p # polls) @ fin # rest, trace = t\<rparr>
      = calculateCRC_poll (a - 1) \<lparr>script = polls @ fin # rest,
            trace = t @ [Wait 5, rd DIVIRQ_REGISTER p]\<rparr>"
    using a(1) by (subst calculateCRC_poll.simps) (simp add: Let_def crc_continue_iff np)
  also have "\<dots> = Inr ((uint fin, a - 1 - 1 - int (length polls)),
             \<lparr>script = rest, trace = (t @ [Wait 5, rd DIVIRQ_REGISTER p])
                 @ crc_polls (polls @ [fin])\<rparr>)"
    by (rule Cons.IH [OF rest a(2) fin])
  finally show ?case by (simp add: crc_polls_def)
qed

lemma calculateCRC_run:
  assumes ds: "length ds = length buf"
    and polls: "\<forall>p\<in>set polls. uint p AND 4 = 0" "length polls \<le> 254"
    and fin: "uint fin AND 4 \<noteq> 0 \<or> length polls = 254"
  shows "calculateCRC buf
           \<lparr>script = c0 # c1 # c2 # c3 # c4 # ds @ c5 # polls @ fin # lo # hi # rest,
            trace = t\<rparr>
     = Inr ([uint lo, uint hi],
            \<lparr>script = rest,
             trace = t @ [rd DIVIRQ_REGISTER c0,
                          wr DIVIRQ_REGISTER (bit_and (uint c0) (bit_not 0x04)) c1,
                          rd FIFOLEVEL_REGISTER c2,
                          wr FIFOLEVEL_REGISTER (bit_or (uint c2) 0x80) c3,
                          wr COMMAND_REGISTER PCD_IDLE c4]
                       @ fifo_writes buf ds
                       @ [wr COMMAND_REGISTER PCD_CALCCRC c5]
                       @ crc_polls (polls @ [fin])
                       @ [rd CRCRESULTL_REGISTER lo, rd CRCRESULTM_REGISTER hi]\<rparr>)"
proof -
  have p1: "int (length polls) + 1 \<le> 255" using polls(2) by simp
  have f: "uint fin AND 4 \<noteq> 0 \<or> int (length polls) + 1 = 255" using fin by auto
  note poll = calculateCRC_poll_run [where a = 255, OF polls(1) p1 f]
  show ?thesis
    by (simp add: calculateCRC_def idlePCD_def bindIO_def returnIO_def writeFIFO_run [OF ds] poll
          bit_or_def)
qed

lemma crc_script_split:
  fixes q :: "8 word list"
  assumes "257 \<le> length q"
  obtains polls fin lo hi rest where
    "q = polls @ fin # lo # hi # rest"
    "\<forall>p\<in>set polls. uint p AND 4 = 0" "length polls \<le> 254"
    "uint fin AND 4 \<noteq> 0 \<or> length polls = 254"
proof -
  let ?P = "\<lambda>p :: 8 word. uint p AND 4 = 0"
  define polls where "polls = takeWhile ?P (take 254 q)"
  define n where "n = length polls"
  have n: "n \<le> 254"
    using length_takeWhile_le [of ?P "take 254 q"] by (simp add: n_def polls_def)
  have "polls = take n (take 254 q)"
    unfolding n_def polls_def by (rule takeWhile_eq_take)
  then have pt: "polls = take n q" using n by (simp add: min_def)
  have all: "\<forall>p\<in>set polls. ?P p"
    unfolding polls_def by (auto dest: set_takeWhileD)
  have stop: "uint (q ! n) AND 4 \<noteq> 0" if "n < 254"
  proof -
    have "n < length (take 254 q)" using that assms by simp
    then have "\<not> ?P (take 254 q ! n)"
      unfolding n_def polls_def by (rule nth_length_takeWhile)
    then show ?thesis using that by simp
  qed
  have len: "n + 3 \<le> length q" using n assms by simp
  have "drop n q = q ! n # drop (Suc n) q" using len by (simp add: Cons_nth_drop_Suc)
  also have "drop (Suc n) q = q ! Suc n # drop (Suc (Suc n)) q"
    using len by (simp add: Cons_nth_drop_Suc)
  also have "drop (Suc (Suc n)) q = q ! Suc (Suc n) # drop (Suc (Suc (Suc n))) q"
    using len by (simp add: Cons_nth_drop_Suc)
  finally have "q = polls @ q ! n # q ! Suc n # q ! Suc (Suc n) # drop (Suc (Suc (Suc n))) q"
    using append_take_drop_id [of n q] pt by simp
  moreover have "uint (q ! n) AND 4 \<noteq> 0 \<or> length polls = 254"
  proof (cases "n < 254")
    case True
    then show ?thesis using stop by simp
  next
    case False
    then show ?thesis using n by (simp add: n_def)
  qed
  ultimately show thesis
    using all n that unfolding n_def by blast
qed

section \<open>Runs of the card protocol layer\<close>

lemma xor_byte_bounds:
  assumes "0 \<le> a" "a < 256" "0 \<le> b" "b < 256"
  shows "0 \<le> a XOR b" "a XOR b < (256 :: int)"
proof -
  show "0 \<le> a XOR b" using assms by simp
  have "a XOR b < 2 ^ 8" using assms by (intro XOR_upper) simp_all
  then show "a XOR b < 256" by simp
qed

lemma bit_xor_bytes:
  assumes "0 \<le> a" "a < 256" "0 \<le> b" "b < 256"
  shows "bit_xor a b = a XOR b"
  using assms by (simp add: bit_xor_def to_int32_id)

lemma uidChecksum_4:
  assumes "0 \<le> a \<and> a < 256" "0 \<le> b \<and> b < 256" "0 \<le> c \<and> c < 256" "0 \<le> d \<and> d < 256"
  shows "uidChecksum [a, b, c, d] = a XOR b XOR c XOR d"
proof -
  have u: "[0..<length [a, b, c, d]] = [0, 1, 2, 3]" by (simp add: upt_rec)
  have ab: "0 \<le> a XOR b" "a XOR b < 256" using assms xor_byte_bounds by simp_all
  then have abc: "0 \<le> (a XOR b) XOR c" "(a XOR b) XOR c < 256"
    using assms xor_byte_bounds by simp_all
  have "uidChecksum [a, b, c, d] = bit_xor (bit_xor (bit_xor (bit_xor 0 a) b) c) d"
    unfolding uidChecksum_def u by simp
  also have "bit_xor 0 a = a" using assms by (simp add: bit_xor_def to_int32_id)
  also have "bit_xor a b = a XOR b" using assms by (simp add: bit_xor_bytes)
  also have "bit_xor (a XOR b) c = (a XOR b) XOR c" using assms ab by (simp add: bit_xor_bytes)
  also have "bit_xor ((a XOR b) XOR c) d = ((a XOR b) XOR c) XOR d"
    using assms abc by (simp add: bit_xor_bytes)
  finally show ?thesis by (simp add: xor.assoc)
qed

lemma list5:
  assumes "length xs = 5"
  shows "xs = [xs ! 0, xs ! 1, xs ! 2, xs ! 3, xs ! 4]"
  using assms by (intro nth_equalityI) (auto simp: nth_Cons' less_Suc_eq numeral_eq_Suc)

lemma toCard_authenticate_run:
  assumes ds: "length ds = length data"
    and polls: "\<forall>p\<in>set polls. uint p AND 0x10 = 0" "length polls < 1999"
    and hit: "uint hit AND 0x10 \<noteq> 0"
    and ev: "uint ev AND 0x1B = 0"
  shows "toCard PCD_AUTHENTICATE data
           \<lparr>script = c0 # c1 # c2 # c3 # c4 # c5 # ds @ c6 # polls @ hit # bf # x # ev # rest,
            trace = t\<rparr>
     = Inr (\<lparr>status = MI_OK, backData = [], backLen = 0\<rparr>,
            \<lparr>script = rest,
             trace = t @ [wr COMMIEN_REGISTER 0x92 c0,
                          rd COMMIRQ_REGISTER c1,
                          wr COMMIRQ_REGISTER (bit_and (uint c1) (bit_not 0x80)) c2,
                          rd FIFOLEVEL_REGISTER c3,
                          wr FIFOLEVEL_REGISTER (bit_or (uint c3) 0x80) c4,
                          wr COMMAND_REGISTER PCD_IDLE c5]
                       @ fifo_writes data ds
                       @ [wr COMMAND_REGISTER PCD_AUTHENTICATE c6]
                       @ irq_polls (polls @ [hit])
                       @ [rd BITFRAMING_REGISTER bf,
                          wr BITFRAMING_REGISTER (bit_and (uint bf) (bit_not 0x80)) x,
                          rd ERROR_REGISTER ev]\<rparr>)"
proof -
  have p1: "int (length polls) + 1 \<le> 2000" and p2: "1999 - int (length polls) \<noteq> 0"
    using polls(2) by simp_all
  have h: "uint hit AND 0x10 \<noteq> 0 \<or> int (length polls) + 1 = 2000" using hit by simp
  note poll = toCard_poll_run [where m = "0x10" and i = 2000, OF _ _ polls(1) p1 h, simplified]
  have "(uint hit AND 0x12) AND 1 = uint hit AND (0x12 AND 1)" by (simp only: and.assoc)
  then have timer: "bit_and (bit_and (uint hit) 0x12) 0x01 = 0" by (simp add: bit_and_def)
  have ne: "PCD_AUTHENTICATE \<noteq> PCD_TRANSCEIVE"
    by (simp add: PCD_AUTHENTICATE_def PCD_TRANSCEIVE_def)
  have fin: "toCard_finish PCD_AUTHENTICATE 0x12 (uint hit) (1999 - int (length polls))
           \<lparr>script = bf # x # ev # rest, trace = t'\<rparr>
     = Inr (\<lparr>status = MI_OK, backData = [], backLen = 0\<rparr>,
            \<lparr>script = rest,
             trace = t' @ [rd BITFRAMING_REGISTER bf,
                           wr BITFRAMING_REGISTER (bit_and (uint bf) (bit_not 0x80)) x,
                           rd ERROR_REGISTER ev]\<rparr>)" for t'
    using p2 ev ne
    by (simp add: toCard_finish_def bindIO_def returnIO_def Let_def timer)
       (simp add: bit_and_def)
  show ?thesis
    using ne
    by (simp add: toCard_def Let_def bindIO_def returnIO_def writeFIFO_run [OF ds] poll fin
          bit_or_def)
qed

lemma readSector_run:
  assumes "calculateCRC [PICC_READ, sector] w = Inr (crc, w1)"
    and "toCard PCD_TRANSCEIVE ([PICC_READ, sector] @ crc) w1 = Inr (r, w')"
  shows "readSector sector w = Inr (if status r \<noteq> MI_OK then None else Some (backData r), w')"
  using assms by (simp add: readSector_def Let_def bindIO_def returnIO_def)

lemma readSector_inv:
  assumes "readSector sector w = Inr (res, w')"
  obtains crc w1 r where
    "calculateCRC [PICC_READ, sector] w = Inr (crc, w1)"
    "toCard PCD_TRANSCEIVE ([PICC_READ, sector] @ crc) w1 = Inr (r, w')"
    "res = (if status r \<noteq> MI_OK then None else Some (backData r))"
  using assms unfolding readSector_def Let_def bindIO_Inr_iff
  by (auto simp: returnIO_Inr_iff split: if_splits)

lemma readSector_16:
  "\<exists>w'. readSector 8
      \<lparr>script = [0, 0, 0, 0, 0, 0, 0, 0, 0x04, 0x12, 0x34]
                @ [0, 0, 0, 0, 0, 0, 0, 0, 0, 0, 0, 0, 0, 0x20, 0, 0, 0, 18, 0]
                @ [1, 2, 3, 4, 5, 6, 7, 8, 9, 10, 11, 12, 13, 14, 15, 16],
       trace = []\<rparr>
     = Inr (Some [1, 2, 3, 4, 5, 6, 7, 8, 9, 10, 11, 12, 13, 14, 15, 16], w')"
proof -
  let ?tx = "[0, 0, 0, 0, 0, 0, 0, 0, 0, 0, 0, 0, 0, 0x20, 0, 0, 0, 18, 0]
                @ [1, 2, 3, 4, 5, 6, 7, 8, 9, 10, 11, 12, 13, 14, 15, 16] :: 8 word list"
  obtain t1 where crc: "calculateCRC [PICC_READ, 8]
      \<lparr>script = [0, 0, 0, 0, 0, 0, 0, 0, 0x04, 0x12, 0x34] @ ?tx, trace = []\<rparr>
     = Inr ([0x12, 0x34], \<lparr>script = ?tx, trace = t1\<rparr>)"
    using calculateCRC_run [where buf = "[PICC_READ, 8]" and ds = "[0, 0]" and polls = "[]"
        and fin = "0x04" and lo = "0x12" and hi = "0x34" and rest = ?tx and t = "[]"
        and ?c0.0 = 0 and ?c1.0 = 0 and ?c2.0 = 0 and ?c3.0 = 0 and ?c4.0 = 0 and ?c5.0 = 0]
    by simp
  obtain w' where tx: "toCard PCD_TRANSCEIVE ([PICC_READ, 8] @ [0x12, 0x34])
      \<lparr>script = ?tx, trace = t1\<rparr>
     = Inr (\<lparr>status = MI_OK,
             backData = [1, 2, 3, 4, 5, 6, 7, 8, 9, 10, 11, 12, 13, 14, 15, 16],
             backLen = 144\<rparr>, w')"
    using toCard_transceive_run [where data = "[PICC_READ, 8, 0x12, 0x34]" and ds = "[0, 0, 0, 0]"
      and polls = "[]" and hit = "0x20" and ev = 0 and lvl = 18 and ctl = 0
      and xs = "[1, 2, 3, 4, 5, 6, 7, 8, 9, 10, 11, 12, 13, 14, 15, 16]" and rest = "[]"
      and t = t1 and ?c0.0 = 0 and ?c1.0 = 0 and ?c2.0 = 0
      and ?c3.0 = 0 and ?c4.0 = 0 and ?c5.0 = 0 and ?c6.0 = 0 and ?c7.0 = 0 and ?c8.0 = 0
      and bf = 0 and x = 0]
    by (simp add: clampN_def)
  from readSector_run [OF crc tx] show ?thesis by simp
qed

lemma writeSector_run:
  assumes "calculateCRC [PICC_WRITE, sector] w = Inr (crc, w1)"
    and "toCard PCD_TRANSCEIVE ([PICC_WRITE, sector] @ crc) w1 = Inr (r, w2)"
    and "\<not> writeSector_reject1 r"
    and "calculateCRC data w2 = Inr (crc2, w3)"
    and "toCard PCD_TRANSCEIVE (data @ crc2) w3 = Inr (r2, w4)"
  shows "writeSector sector data w = Inr (\<not> writeSector_reject2 r2, w4)"
proof -
  have ok: "status r = MI_OK"
    using assms(3) by (auto simp: writeSector_reject1_def split: if_splits)
  show ?thesis
    using assms ok by (simp add: writeSector_def Let_def bindIO_def returnIO_def)
qed

section \<open>The poll loop and the Timer IRQ\<close>

text \<open>
  C1. The claim: the poll loop of \<open>_toCard\<close> ends when the budget is used up, or
  the Timer-IRQ bit \<open>0x01\<close> is set in the byte read, or a bit of \<open>waitIRq\<close> is set
  in it; a byte with only the Timer-IRQ bit ends the loop. The comment in the loop says the
  same. The code does not do it: \<open>~(n & 0x01)\<close> is \<open>-1\<close> or \<open>-2\<close>, both
  truthy, so the Timer-IRQ bit never decides. At the first poll of a transceive (counter
  1999, \<open>waitIRq = 0x30\<close>) the byte \<open>0x01\<close> does not break the loop, and the loop
  polls again. On a chip that answers every poll with \<open>0x01\<close>, a transceive of the
  request frame makes all 2000 polls and returns \<open>MI_ERR\<close>.
\<close>

theorem toCard_poll_ignores_timer_irq:
  "\<not> toCard_break 1999 0x01 0x30 \<and>
   toCard_poll 0x30 2000 \<lparr>script = [0x01, 0x20], trace = []\<rparr>
     = Inr ((0x20, 1998), \<lparr>script = [], trace = irq_polls [0x01, 0x20]\<rparr>) \<and>
   toCard PCD_TRANSCEIVE [PICC_REQIDL]
      \<lparr>script = [0, 0, 0, 0, 0, 0, 0, 0, 0, 0] @ replicate 2000 0x01 @ [0, 0], trace = []\<rparr>
     = Inr (\<lparr>status = MI_ERR, backData = [], backLen = 0\<rparr>,
            \<lparr>script = [],
             trace = [wr COMMIEN_REGISTER 0xF7 0, rd COMMIRQ_REGISTER 0, wr COMMIRQ_REGISTER 0 0,
                      rd FIFOLEVEL_REGISTER 0, wr FIFOLEVEL_REGISTER 0x80 0,
                      wr COMMAND_REGISTER PCD_IDLE 0, wr FIFODATA_REGISTER PICC_REQIDL 0,
                      wr COMMAND_REGISTER PCD_TRANSCEIVE 0,
                      rd BITFRAMING_REGISTER 0, wr BITFRAMING_REGISTER 0x80 0]
                   @ irq_polls (replicate 2000 0x01)
                   @ [rd BITFRAMING_REGISTER 0, wr BITFRAMING_REGISTER 0 0]\<rparr>)"
proof (intro conjI)
  show "\<not> toCard_break 1999 0x01 0x30"
    using toCard_break_iff [of "0x30" 1999 "0x01"] by simp
  show "toCard_poll 0x30 2000 \<lparr>script = [0x01, 0x20], trace = []\<rparr>
     = Inr ((0x20, 1998), \<lparr>script = [], trace = irq_polls [0x01, 0x20]\<rparr>)"
    using toCard_poll_run [of "0x30" "[0x01]" 2000 "0x20" "[]" "[]"] by simp
  show "toCard PCD_TRANSCEIVE [PICC_REQIDL]
      \<lparr>script = [0, 0, 0, 0, 0, 0, 0, 0, 0, 0] @ replicate 2000 0x01 @ [0, 0], trace = []\<rparr>
     = Inr (\<lparr>status = MI_ERR, backData = [], backLen = 0\<rparr>,
            \<lparr>script = [],
             trace = [wr COMMIEN_REGISTER 0xF7 0, rd COMMIRQ_REGISTER 0, wr COMMIRQ_REGISTER 0 0,
                      rd FIFOLEVEL_REGISTER 0, wr FIFOLEVEL_REGISTER 0x80 0,
                      wr COMMAND_REGISTER PCD_IDLE 0, wr FIFODATA_REGISTER PICC_REQIDL 0,
                      wr COMMAND_REGISTER PCD_TRANSCEIVE 0,
                      rd BITFRAMING_REGISTER 0, wr BITFRAMING_REGISTER 0x80 0]
                   @ irq_polls (replicate 2000 0x01)
                   @ [rd BITFRAMING_REGISTER 0, wr BITFRAMING_REGISTER 0 0]\<rparr>)"
    using toCard_transceive_timeout_run [where data = "[PICC_REQIDL]" and ds = "[0]"
        and polls = "replicate 2000 0x01" and rest = "[]" and t = "[]"
        and ?c0.0 = 0 and ?c1.0 = 0 and ?c2.0 = 0 and ?c3.0 = 0 and ?c4.0 = 0 and ?c5.0 = 0
        and ?c6.0 = 0 and ?c7.0 = 0 and ?c8.0 = 0 and bf = 0 and x = 0]
    by (simp add: fifo_writes_def bit_and_def bit_or_def bit_not_def)
qed

section \<open>The write handshake\<close>

text \<open>
  C2. The claim: when the first phase of \<open>_writeSector\<close> is answered with an
  acknowledgment nibble other than \<open>0xA\<close>, the call returns false and the data are not
  sent. The second test of the function does this, \<open>(r.backData[0] & 0x0F) !== 0x0A\<close>;
  the first is written without the parentheses and tests bit 0 of the byte instead. The
  4-bit answer \<open>0x4\<close> (a refusal) passes the first test and fails the second. So on a
  chip that answers \<open>0x4\<close> to \<open>[WRITE, 8] + CRC\<close> and \<open>0xA\<close> to the data, the
  data are sent and the call returns true. The four parts of the script are the answers
  to the first CRC computation, the first transceive, the second CRC computation and the
  second transceive.
\<close>

theorem writeSector_accepts_nak:
  "\<not> writeSector_reject1 \<lparr>status = MI_OK, backData = [0x04], backLen = 4\<rparr> \<and>
   writeSector_reject2 \<lparr>status = MI_OK, backData = [0x04], backLen = 4\<rparr> \<and>
   map_sum id fst (writeSector 8 [0, 1, 2, 3, 4, 5, 6, 7, 8, 9, 10, 11, 12, 13, 14, 15]
      \<lparr>script = [0, 0, 0, 0, 0, 0, 0, 0, 0x04, 0x12, 0x34]
                @ [0, 0, 0, 0, 0, 0, 0, 0, 0, 0, 0, 0, 0, 0x20, 0, 0, 0, 1, 0x04, 0x04]
                @ [0, 0, 0, 0, 0, 0, 0, 0, 0, 0, 0, 0, 0, 0, 0, 0, 0, 0, 0, 0, 0, 0,
                   0x04, 0x56, 0x78]
                @ [0, 0, 0, 0, 0, 0, 0, 0, 0, 0, 0, 0, 0, 0, 0, 0, 0, 0, 0, 0, 0, 0, 0, 0,
                   0, 0, 0, 0x20, 0, 0, 0, 1, 0x04, 0x0A],
       trace = []\<rparr>)
     = Inr True"
proof (intro conjI)
  show "\<not> writeSector_reject1 \<lparr>status = MI_OK, backData = [0x04], backLen = 4\<rparr>"
    by (simp add: writeSector_reject1_def js_bitand_def js_index_def)
  show "writeSector_reject2 \<lparr>status = MI_OK, backData = [0x04], backLen = 4\<rparr>"
    by (simp add: writeSector_reject2_def js_bitand_def js_index_def)
next
  let ?data = "[0, 1, 2, 3, 4, 5, 6, 7, 8, 9, 10, 11, 12, 13, 14, 15] :: int list"
  let ?tx2 = "[0, 0, 0, 0, 0, 0, 0, 0, 0, 0, 0, 0, 0, 0, 0, 0, 0, 0, 0, 0, 0, 0, 0, 0,
                   0, 0, 0, 0x20, 0, 0, 0, 1, 0x04, 0x0A] :: 8 word list"
  let ?crc2 = "[0, 0, 0, 0, 0, 0, 0, 0, 0, 0, 0, 0, 0, 0, 0, 0, 0, 0, 0, 0, 0, 0,
                   0x04, 0x56, 0x78] :: 8 word list"
  let ?tx1 = "[0, 0, 0, 0, 0, 0, 0, 0, 0, 0, 0, 0, 0, 0x20, 0, 0, 0, 1, 0x04, 0x04] :: 8 word list"
  obtain t1 where crc1: "calculateCRC [PICC_WRITE, 8]
      \<lparr>script = [0, 0, 0, 0, 0, 0, 0, 0, 0x04, 0x12, 0x34] @ ?tx1 @ ?crc2 @ ?tx2, trace = []\<rparr>
     = Inr ([0x12, 0x34], \<lparr>script = ?tx1 @ ?crc2 @ ?tx2, trace = t1\<rparr>)"
    using calculateCRC_run [where buf = "[PICC_WRITE, 8]" and ds = "[0, 0]" and polls = "[]"
        and fin = "0x04" and lo = "0x12" and hi = "0x34" and rest = "?tx1 @ ?crc2 @ ?tx2"
        and t = "[]"
        and ?c0.0 = 0 and ?c1.0 = 0 and ?c2.0 = 0 and ?c3.0 = 0 and ?c4.0 = 0 and ?c5.0 = 0]
    by simp
  obtain t2 where tx1: "toCard PCD_TRANSCEIVE ([PICC_WRITE, 8] @ [0x12, 0x34])
      \<lparr>script = ?tx1 @ ?crc2 @ ?tx2, trace = t1\<rparr>
     = Inr (\<lparr>status = MI_OK, backData = [0x04], backLen = 4\<rparr>,
            \<lparr>script = ?crc2 @ ?tx2, trace = t2\<rparr>)"
    using toCard_transceive_run [where data = "[PICC_WRITE, 8, 0x12, 0x34]" and ds = "[0, 0, 0, 0]"
      and polls = "[]" and hit = "0x20" and ev = 0 and lvl = 1 and ctl = "0x04"
      and xs = "[0x04]" and rest = "?crc2 @ ?tx2"
      and t = t1 and ?c0.0 = 0 and ?c1.0 = 0 and ?c2.0 = 0
      and ?c3.0 = 0 and ?c4.0 = 0 and ?c5.0 = 0 and ?c6.0 = 0 and ?c7.0 = 0 and ?c8.0 = 0
      and bf = 0 and x = 0]
    by (simp add: clampN_def)
  have acc: "\<not> writeSector_reject1 \<lparr>status = MI_OK, backData = [0x04], backLen = 4\<rparr>"
    by (simp add: writeSector_reject1_def js_bitand_def js_index_def)
  obtain t3 where crc2: "calculateCRC ?data \<lparr>script = ?crc2 @ ?tx2, trace = t2\<rparr>
     = Inr ([0x56, 0x78], \<lparr>script = ?tx2, trace = t3\<rparr>)"
    using calculateCRC_run [where buf = ?data
        and ds = "[0, 0, 0, 0, 0, 0, 0, 0, 0, 0, 0, 0, 0, 0, 0, 0]" and polls = "[]"
        and fin = "0x04" and lo = "0x56" and hi = "0x78" and rest = ?tx2 and t = t2
        and ?c0.0 = 0 and ?c1.0 = 0 and ?c2.0 = 0 and ?c3.0 = 0 and ?c4.0 = 0 and ?c5.0 = 0]
    by simp
  obtain w4 where tx2: "toCard PCD_TRANSCEIVE (?data @ [0x56, 0x78])
      \<lparr>script = ?tx2, trace = t3\<rparr>
     = Inr (\<lparr>status = MI_OK, backData = [0x0A], backLen = 4\<rparr>, w4)"
    using toCard_transceive_run [where data = "?data @ [0x56, 0x78]"
      and ds = "[0, 0, 0, 0, 0, 0, 0, 0, 0, 0, 0, 0, 0, 0, 0, 0, 0, 0]"
      and polls = "[]" and hit = "0x20" and ev = 0 and lvl = 1 and ctl = "0x04"
      and xs = "[0x0A]" and rest = "[]"
      and t = t3 and ?c0.0 = 0 and ?c1.0 = 0 and ?c2.0 = 0
      and ?c3.0 = 0 and ?c4.0 = 0 and ?c5.0 = 0 and ?c6.0 = 0 and ?c7.0 = 0 and ?c8.0 = 0
      and bf = 0 and x = 0]
    by (simp add: clampN_def)
  have ack: "\<not> writeSector_reject2 \<lparr>status = MI_OK, backData = [0x0A], backLen = 4\<rparr>"
    by (simp add: writeSector_reject2_def js_bitand_def js_index_def)
  from writeSector_run [OF crc1 tx1 acc crc2 tx2] ack
  show "map_sum id fst (writeSector 8 ?data
      \<lparr>script = [0, 0, 0, 0, 0, 0, 0, 0, 0x04, 0x12, 0x34] @ ?tx1 @ ?crc2 @ ?tx2,
       trace = []\<rparr>) = Inr True"
    by simp
qed

section \<open>An empty FIFO after a completed transceive\<close>

text \<open>
  C3, as amended. When a transceive ends its poll loop on a \<open>waitIRq\<close> bit (the byte
  \<open>hit\<close>, before the budget is used up), the error register \<open>ev\<close> shows none of
  the bits \<open>0x1B\<close>, the FIFO level register reads 0 and the control register \<open>ctl\<close>
  reports 0 valid bits, then exactly one byte \<open>fd\<close> is read from the FIFO data register
  and returned, and \<open>backLen\<close> is 0: the bit length is computed from the level as read,
  before the count is raised to 1. The bytes \<open>c0 ... c8\<close>, \<open>ds\<close>, \<open>bf\<close> and
  \<open>x\<close> are what the chip answers to the transfers of the set-up and to the clearing of
  the start-send bit; \<open>polls\<close> are the IRQ bytes read before \<open>hit\<close>.
\<close>

theorem toCard_empty_fifo:
  assumes "length ds = length data"
    and "\<forall>p\<in>set polls. uint p AND 0x30 = 0" and "length polls < 1999"
    and "uint hit AND 0x30 \<noteq> 0"
    and "uint ev AND 0x1B = 0"
    and "uint ctl AND 0x07 = 0"
  shows "\<exists>tr. toCard PCD_TRANSCEIVE data
           \<lparr>script = c0 # c1 # c2 # c3 # c4 # c5 # ds @ c6 # c7 # c8 # polls
                       @ hit # bf # x # ev # 0 # ctl # fd # rest,
            trace = t\<rparr>
     = Inr (\<lparr>status = (if uint hit AND 0x01 \<noteq> 0 then MI_NOTAGERR else MI_OK),
             backData = [uint fd], backLen = 0\<rparr>,
            \<lparr>script = rest,
             trace = t @ tr @ [rd FIFOLEVEL_REGISTER 0, rd CONTROL_REGISTER ctl,
                               rd FIFODATA_REGISTER fd]\<rparr>)"
proof -
  have xs: "length [fd] = clampN 0" by (simp add: clampN_def)
  show ?thesis
    using toCard_transceive_run [OF assms(1,2,3,4,5) xs, of c0 c1 c2 c3 c4 c5 c6 c7 c8 bf x ctl rest t]
      assms(6)
    by (simp add: fifo_reads_def)
qed

text \<open>
  The request frame \<open>[0x26]\<close>; the chip answers 0 to the ten transfers of the set-up,
  then \<open>0x20\<close> (RxIRq) to the first poll, then error register 0, FIFO level 0, control
  register 0 and the FIFO byte \<open>0xAB\<close>; the byte \<open>0x55\<close> is left unread.
\<close>

theorem toCard_empty_fifo_witness:
  "\<exists>tr. toCard PCD_TRANSCEIVE [PICC_REQIDL]
      \<lparr>script = [0, 0, 0, 0, 0, 0, 0, 0, 0, 0, 0x20, 0, 0, 0, 0, 0, 0xAB, 0x55], trace = []\<rparr>
     = Inr (\<lparr>status = MI_OK, backData = [0xAB], backLen = 0\<rparr>,
            \<lparr>script = [0x55],
             trace = tr @ [rd FIFOLEVEL_REGISTER 0, rd CONTROL_REGISTER 0,
                           rd FIFODATA_REGISTER 0xAB]\<rparr>)"
  using toCard_empty_fifo [of "[0]" "[PICC_REQIDL]" "[]" "0x20" 0 0 0 0 0 0 0 0 0 0 0 0 0 "0xAB"
      "[0x55]" "[]"]
  by simp

text \<open>
  The claim as stated asks for a bit length of 8 in this situation. On the same answers
  of the chip the call returns one byte and \<open>backLen = 0\<close>.
\<close>

theorem toCard_empty_fifo_bit_length_is_not_8:
  "map_sum id fst (toCard PCD_TRANSCEIVE [PICC_REQIDL]
      \<lparr>script = [0, 0, 0, 0, 0, 0, 0, 0, 0, 0, 0x20, 0, 0, 0, 0, 0, 0xAB], trace = []\<rparr>)
     = Inr \<lparr>status = MI_OK, backData = [0xAB], backLen = 0\<rparr>"
  using toCard_transceive_run [where data = "[PICC_REQIDL]" and ds = "[0]" and polls = "[]"
      and hit = "0x20" and ev = 0 and lvl = 0 and ctl = 0 and xs = "[0xAB]" and rest = "[]"
      and t = "[]" and ?c0.0 = 0 and ?c1.0 = 0 and ?c2.0 = 0 and ?c3.0 = 0 and ?c4.0 = 0
      and ?c5.0 = 0 and ?c6.0 = 0 and ?c7.0 = 0 and ?c8.0 = 0 and bf = 0 and x = 0]
  by (simp add: clampN_def)

section \<open>At most 16 response bytes\<close>

text \<open>
  C4. A transceive never returns more than 16 bytes: whatever the world, a call that
  returns has \<open>length (backData r) \<le> 16\<close>. And for every byte \<open>lvl\<close> read from the
  FIFO level register after a completed poll loop and a clean error register, the call
  reads exactly \<open>min 16 (max 1 lvl)\<close> bytes \<open>xs\<close> from the FIFO data register, returns
  them, and leaves the rest of the script untouched.
\<close>

theorem toCard_reads_at_most_16:
  "(\<forall>w r w'. toCard PCD_TRANSCEIVE data w = Inr (r, w') \<longrightarrow> length (backData r) \<le> 16) \<and>
   (length ds = length data \<longrightarrow> (\<forall>p\<in>set polls. uint p AND 0x30 = 0) \<longrightarrow> length polls < 1999 \<longrightarrow>
    uint hit AND 0x30 \<noteq> 0 \<longrightarrow> uint ev AND 0x1B = 0 \<longrightarrow> length xs = min 16 (max 1 (unat lvl)) \<longrightarrow>
    (\<exists>r tr. toCard PCD_TRANSCEIVE data
           \<lparr>script = c0 # c1 # c2 # c3 # c4 # c5 # ds @ c6 # c7 # c8 # polls
                       @ hit # bf # x # ev # lvl # ctl # xs @ rest,
            trace = t\<rparr>
       = Inr (r, \<lparr>script = rest,
                  trace = t @ tr @ [rd FIFOLEVEL_REGISTER lvl, rd CONTROL_REGISTER ctl]
                            @ fifo_reads xs\<rparr>) \<and>
       backData r = map uint xs \<and> length (backData r) \<le> 16))"
proof (intro conjI allI impI)
  fix w r w'
  assume "toCard PCD_TRANSCEIVE data w = Inr (r, w')"
  from toCard_result [OF this] show "length (backData r) \<le> 16"
    by (simp split: if_splits)
next
  assume ds: "length ds = length data"
    and polls: "\<forall>p\<in>set polls. uint p AND 0x30 = 0" "length polls < 1999"
    and hit: "uint hit AND 0x30 \<noteq> 0" and ev: "uint ev AND 0x1B = 0"
    and xs: "length xs = min 16 (max 1 (unat lvl))"
  have xs': "length xs = clampN lvl" using xs by (simp add: clampN_def)
  have "length (map uint xs) \<le> 16" using xs by simp
  then show "\<exists>r tr. toCard PCD_TRANSCEIVE data
           \<lparr>script = c0 # c1 # c2 # c3 # c4 # c5 # ds @ c6 # c7 # c8 # polls
                       @ hit # bf # x # ev # lvl # ctl # xs @ rest,
            trace = t\<rparr>
       = Inr (r, \<lparr>script = rest,
                  trace = t @ tr @ [rd FIFOLEVEL_REGISTER lvl, rd CONTROL_REGISTER ctl]
                            @ fifo_reads xs\<rparr>) \<and>
       backData r = map uint xs \<and> length (backData r) \<le> 16"
    using toCard_transceive_run [OF ds polls hit ev xs', of c0 c1 c2 c3 c4 c5 c6 c7 c8 bf x ctl rest t]
    by simp
qed

text \<open>
  The FIFO level register reads \<open>0xFF\<close>: sixteen bytes are read, the bytes 17 and 18
  stay in the script.
\<close>

theorem toCard_reads_at_most_16_witness:
  "(\<exists>r tr. toCard PCD_TRANSCEIVE [PICC_READ, 8, 0x12, 0x34]
           \<lparr>script = [0, 0, 0, 0, 0, 0, 0, 0, 0, 0, 0, 0, 0, 0x00, 0x20, 0, 0, 0, 0xFF, 0,
                       1, 2, 3, 4, 5, 6, 7, 8, 9, 10, 11, 12, 13, 14, 15, 16, 17, 18],
            trace = []\<rparr>
       = Inr (r, \<lparr>script = [17, 18],
                  trace = tr @ [rd FIFOLEVEL_REGISTER 0xFF, rd CONTROL_REGISTER 0]
                     @ fifo_reads [1, 2, 3, 4, 5, 6, 7, 8, 9, 10, 11, 12, 13, 14, 15, 16]\<rparr>) \<and>
       backData r = [1, 2, 3, 4, 5, 6, 7, 8, 9, 10, 11, 12, 13, 14, 15, 16] \<and>
       length (backData r) \<le> 16)"
  using toCard_reads_at_most_16 [of "[PICC_READ, 8, 0x12, 0x34]" "[0, 0, 0, 0]" "[0x00]" "0x20" 0
      "[1, 2, 3, 4, 5, 6, 7, 8, 9, 10, 11, 12, 13, 14, 15, 16]" "0xFF"
      0 0 0 0 0 0 0 0 0 0 0 0 "[17, 18]" "[]"]
  by simp

section \<open>The UID checksum\<close>

text \<open>
  C5. After the bit framing register is written with 0 and the anticollision frame
  \<open>[0x93, 0x20]\<close> is transceived with result \<open>r\<close>, \<open>_antiCollision\<close> returns the
  first four bytes of the answer exactly when the status is \<open>MI_OK\<close>, the answer has
  five bytes and the fifth is the exclusive or of the first four; in every other case it
  returns no UID.
\<close>

theorem antiCollision_checks_bcc:
  assumes "toCard PCD_TRANSCEIVE [PICC_ANTICOLL, 0x20]
             \<lparr>script = s, trace = t @ [wr BITFRAMING_REGISTER 0x00 b0]\<rparr> = Inr (r, w')"
  shows "antiCollision \<lparr>script = b0 # s, trace = t\<rparr>
     = Inr (if status r = MI_OK \<and> length (backData r) = 5 \<and>
               backData r ! 4 = backData r ! 0 XOR backData r ! 1 XOR backData r ! 2 XOR backData r ! 3
            then Some (take 4 (backData r)) else None, w')"
proof -
  let ?bd = "backData r"
  have run: "antiCollision \<lparr>script = b0 # s, trace = t\<rparr>
     = Inr (if status r \<noteq> MI_OK then None
            else if length ?bd \<noteq> 5 then None
            else if JNum (uidChecksum (take 4 ?bd)) \<noteq> js_index ?bd 4 then None
            else Some (take 4 ?bd), w')"
    using assms by (simp add: antiCollision_def bindIO_def returnIO_def)
  show ?thesis
  proof (cases "length ?bd = 5")
    case False
    with run show ?thesis by simp
  next
    case True
    have bytes: "\<forall>b\<in>set ?bd. 0 \<le> b \<and> b < 256"
      using toCard_result [OF assms] by simp
    have b: "0 \<le> ?bd ! k \<and> ?bd ! k < 256" if "k < 5" for k
      using bytes that True by (simp add: all_set_conv_all_nth)
    have bd: "?bd = [?bd ! 0, ?bd ! 1, ?bd ! 2, ?bd ! 3, ?bd ! 4]"
      using True by (rule list5)
    have "take 4 ?bd = take 4 [?bd ! 0, ?bd ! 1, ?bd ! 2, ?bd ! 3, ?bd ! 4]"
      using bd by simp
    then have tk: "take 4 ?bd = [?bd ! 0, ?bd ! 1, ?bd ! 2, ?bd ! 3]" by simp
    have cs: "uidChecksum (take 4 ?bd) = ?bd ! 0 XOR ?bd ! 1 XOR ?bd ! 2 XOR ?bd ! 3"
      unfolding tk by (rule uidChecksum_4) (simp_all add: b)
    have ix: "js_index ?bd 4 = JNum (?bd ! 4)" using True by (simp add: js_index_def)
    show ?thesis unfolding run cs ix using True by auto
  qed
qed

text \<open>
  The chip answers the five bytes \<open>DE AD BE EF 22\<close>, and \<open>0x22\<close> is the exclusive or
  of the first four.
\<close>

theorem antiCollision_checks_bcc_witness:
  "map_sum id fst (antiCollision
      \<lparr>script = [0, 0, 0, 0, 0, 0, 0, 0, 0, 0, 0, 0, 0x20, 0, 0, 0, 5, 0,
                  0xDE, 0xAD, 0xBE, 0xEF, 0x22],
       trace = []\<rparr>)
     = Inr (Some [0xDE, 0xAD, 0xBE, 0xEF])"
proof -
  obtain w' where "toCard PCD_TRANSCEIVE [PICC_ANTICOLL, 0x20]
      \<lparr>script = [0, 0, 0, 0, 0, 0, 0, 0, 0, 0, 0, 0x20, 0, 0, 0, 5, 0,
                  0xDE, 0xAD, 0xBE, 0xEF, 0x22],
       trace = [] @ [wr BITFRAMING_REGISTER 0x00 0]\<rparr>
     = Inr (\<lparr>status = MI_OK, backData = [0xDE, 0xAD, 0xBE, 0xEF, 0x22], backLen = 40\<rparr>, w')"
    using toCard_transceive_run [where data = "[PICC_ANTICOLL, 0x20]" and ds = "[0, 0]"
      and polls = "[]" and hit = "0x20" and ev = 0 and lvl = 5 and ctl = 0
      and xs = "[0xDE, 0xAD, 0xBE, 0xEF, 0x22]" and rest = "[]"
      and t = "[] @ [wr BITFRAMING_REGISTER 0x00 0]" and ?c0.0 = 0 and ?c1.0 = 0 and ?c2.0 = 0
      and ?c3.0 = 0 and ?c4.0 = 0 and ?c5.0 = 0 and ?c6.0 = 0 and ?c7.0 = 0 and ?c8.0 = 0
      and bf = 0 and x = 0]
    by (simp add: clampN_def)
  from antiCollision_checks_bcc [OF this] show ?thesis by simp
qed

section \<open>Authentication and the crypto bit\<close>

text \<open>
  C6. After the authenticate command is run on \<open>[0x60, sector] + key + uid\<close> with result
  \<open>r\<close>: if the status is not \<open>MI_OK\<close>, \<open>_auth1A\<close> returns false and reads
  nothing more; if it is \<open>MI_OK\<close>, it reads status register 2 and returns true exactly
  when bit \<open>0x08\<close> of the byte read is set.
\<close>

theorem auth1A_needs_crypto_bit:
  assumes "toCard PCD_AUTHENTICATE ([PICC_AUTHENT1A, sector] @ key @ uid) w
             = Inr (r, \<lparr>script = s, trace = t\<rparr>)"
  shows "auth1A sector key uid w
     = (if status r = MI_OK
        then (case s of
                [] \<Rightarrow> Inl TransportError
              | b # bs \<Rightarrow> Inr (uint b AND 0x08 \<noteq> 0,
                              \<lparr>script = bs, trace = t @ [rd STATUS2_REGISTER b]\<rparr>))
        else Inr (False, \<lparr>script = s, trace = t\<rparr>))"
  using assms
  by (cases s) (simp_all add: auth1A_def bindIO_def returnIO_def Let_def bit_and_def)

text \<open>
  The authenticate command ends with \<open>MI_OK\<close> (idle IRQ \<open>0x10\<close>, clean error
  register), status register 2 then reads 0: the call returns false.
\<close>

theorem auth1A_needs_crypto_bit_witness:
  "auth1A 8 [0xFF, 0xFF, 0xFF, 0xFF, 0xFF, 0xFF] [0xDE, 0xAD, 0xBE, 0xEF]
      \<lparr>script = [0, 0, 0, 0, 0, 0, 0, 0, 0, 0, 0, 0, 0, 0, 0, 0, 0, 0, 0, 0x10, 0, 0, 0, 0x00],
       trace = []\<rparr>
     = Inr (False,
        \<lparr>script = [],
         trace = [wr COMMIEN_REGISTER 0x92 0, rd COMMIRQ_REGISTER 0, wr COMMIRQ_REGISTER 0 0,
                  rd FIFOLEVEL_REGISTER 0, wr FIFOLEVEL_REGISTER 0x80 0,
                  wr COMMAND_REGISTER PCD_IDLE 0]
               @ fifo_writes [PICC_AUTHENT1A, 8, 0xFF, 0xFF, 0xFF, 0xFF, 0xFF, 0xFF,
                              0xDE, 0xAD, 0xBE, 0xEF] [0, 0, 0, 0, 0, 0, 0, 0, 0, 0, 0, 0]
               @ [wr COMMAND_REGISTER PCD_AUTHENTICATE 0]
               @ irq_polls [0x10]
               @ [rd BITFRAMING_REGISTER 0, wr BITFRAMING_REGISTER 0 0, rd ERROR_REGISTER 0,
                  rd STATUS2_REGISTER 0x00]\<rparr>)"
proof -
  have "toCard PCD_AUTHENTICATE
        ([PICC_AUTHENT1A, 8] @ [0xFF, 0xFF, 0xFF, 0xFF, 0xFF, 0xFF] @ [0xDE, 0xAD, 0xBE, 0xEF])
      \<lparr>script = [0, 0, 0, 0, 0, 0, 0, 0, 0, 0, 0, 0, 0, 0, 0, 0, 0, 0, 0, 0x10, 0, 0, 0, 0x00],
       trace = []\<rparr>
     = Inr (\<lparr>status = MI_OK, backData = [], backLen = 0\<rparr>,
        \<lparr>script = [0x00],
         trace = [wr COMMIEN_REGISTER 0x92 0, rd COMMIRQ_REGISTER 0, wr COMMIRQ_REGISTER 0 0,
                  rd FIFOLEVEL_REGISTER 0, wr FIFOLEVEL_REGISTER 0x80 0,
                  wr COMMAND_REGISTER PCD_IDLE 0]
               @ fifo_writes [PICC_AUTHENT1A, 8, 0xFF, 0xFF, 0xFF, 0xFF, 0xFF, 0xFF,
                              0xDE, 0xAD, 0xBE, 0xEF] [0, 0, 0, 0, 0, 0, 0, 0, 0, 0, 0, 0]
               @ [wr COMMAND_REGISTER PCD_AUTHENTICATE 0]
               @ irq_polls [0x10]
               @ [rd BITFRAMING_REGISTER 0, wr BITFRAMING_REGISTER 0 0,
                  rd ERROR_REGISTER 0]\<rparr>)"
    using toCard_authenticate_run [where
        data = "[PICC_AUTHENT1A, 8, 0xFF, 0xFF, 0xFF, 0xFF, 0xFF, 0xFF, 0xDE, 0xAD, 0xBE, 0xEF]"
      and ds = "[0, 0, 0, 0, 0, 0, 0, 0, 0, 0, 0, 0]"
      and polls = "[]" and hit = "0x10" and ev = 0 and rest = "[0x00]"
      and t = "[]" and ?c0.0 = 0 and ?c1.0 = 0 and ?c2.0 = 0
      and ?c3.0 = 0 and ?c4.0 = 0 and ?c5.0 = 0 and ?c6.0 = 0 and bf = 0 and x = 0]
    by (simp add: bit_and_def bit_or_def bit_not_def)
  from auth1A_needs_crypto_bit [OF this] show ?thesis by (simp add: MI_OK_def)
qed

section \<open>The CRC poll loop\<close>

text \<open>
  C7. For every input \<open>buf\<close> and every answer of the chip: when the transport does not
  fail (the script holds the answers \<open>c0 ... c5\<close>, \<open>ds\<close> to the set-up and at least
  257 more bytes \<open>q\<close>), \<open>_calculateCRC\<close> polls the DIVIRQ register \<open>k\<close> times with
  \<open>1 \<le> k \<le> 255\<close>, each poll after a wait of 5 ms (\<open>crc_polls\<close>); no poll but the
  last saw the done bit \<open>0x04\<close>, and if it stopped before the 255th poll the last poll
  saw the bit. In every case it then reads the low and the high result register and
  returns the two bytes, in that order, with no error.
\<close>

theorem calculateCRC_returns:
  assumes ds: "length ds = length buf" and q: "257 \<le> length q"
  shows "\<exists>k. 1 \<le> k \<and> k \<le> 255 \<and>
     calculateCRC buf \<lparr>script = c0 # c1 # c2 # c3 # c4 # ds @ c5 # q, trace = t\<rparr>
       = Inr ([uint (q ! k), uint (q ! (k + 1))],
              \<lparr>script = drop (k + 2) q,
               trace = t @ [rd DIVIRQ_REGISTER c0,
                            wr DIVIRQ_REGISTER (bit_and (uint c0) (bit_not 0x04)) c1,
                            rd FIFOLEVEL_REGISTER c2,
                            wr FIFOLEVEL_REGISTER (bit_or (uint c2) 0x80) c3,
                            wr COMMAND_REGISTER PCD_IDLE c4]
                         @ fifo_writes buf ds
                         @ [wr COMMAND_REGISTER PCD_CALCCRC c5]
                         @ crc_polls (take k q)
                         @ [rd CRCRESULTL_REGISTER (q ! k), rd CRCRESULTM_REGISTER (q ! (k + 1))]\<rparr>) \<and>
     (\<forall>p\<in>set (take (k - 1) q). uint p AND 0x04 = 0) \<and>
     (k < 255 \<longrightarrow> uint (q ! (k - 1)) AND 0x04 \<noteq> 0)"
proof -
  from q obtain polls fin lo hi rest where
    split: "q = polls @ fin # lo # hi # rest" and
    polls: "\<forall>p\<in>set polls. uint p AND 4 = 0" "length polls \<le> 254" and
    fin: "uint fin AND 4 \<noteq> 0 \<or> length polls = 254"
    by (rule crc_script_split)
  let ?k = "length polls + 1"
  have k: "1 \<le> ?k" "?k \<le> 255" using polls(2) by simp_all
  have nth: "q ! ?k = lo" "q ! (?k + 1) = hi" "q ! (?k - 1) = fin"
    by (simp_all add: split nth_append)
  have tk: "take ?k q = polls @ [fin]" "take (?k - 1) q = polls" "drop (?k + 2) q = rest"
    by (simp_all add: split)
  have stop: "?k < 255 \<longrightarrow> uint (q ! (?k - 1)) AND 0x04 \<noteq> 0"
    using fin unfolding nth by auto
  have run: "calculateCRC buf \<lparr>script = c0 # c1 # c2 # c3 # c4 # ds @ c5 # q, trace = t\<rparr>
       = Inr ([uint (q ! ?k), uint (q ! (?k + 1))],
              \<lparr>script = drop (?k + 2) q,
               trace = t @ [rd DIVIRQ_REGISTER c0,
                            wr DIVIRQ_REGISTER (bit_and (uint c0) (bit_not 0x04)) c1,
                            rd FIFOLEVEL_REGISTER c2,
                            wr FIFOLEVEL_REGISTER (bit_or (uint c2) 0x80) c3,
                            wr COMMAND_REGISTER PCD_IDLE c4]
                         @ fifo_writes buf ds
                         @ [wr COMMAND_REGISTER PCD_CALCCRC c5]
                         @ crc_polls (take ?k q)
                         @ [rd CRCRESULTL_REGISTER (q ! ?k), rd CRCRESULTM_REGISTER (q ! (?k + 1))]\<rparr>)"
    unfolding nth tk
    using calculateCRC_run [OF ds polls fin, of c0 c1 c2 c3 c4 c5 lo hi rest t]
    by (simp add: split)
  have all: "\<forall>p\<in>set (take (?k - 1) q). uint p AND 0x04 = 0"
    unfolding tk using polls(1) by simp
  from k run all stop show ?thesis by blast
qed

text \<open>
  The done bit never sets: 255 polls answer 0, and the call returns the result registers
  \<open>0x12\<close> and \<open>0x34\<close> all the same.
\<close>

theorem calculateCRC_returns_witness:
  "calculateCRC [PICC_READ, 8]
      \<lparr>script = 0 # 0 # 0 # 0 # 0 # [0, 0] @ 0 # (replicate 255 0 @ [0x12, 0x34]), trace = []\<rparr>
     = Inr ([0x12, 0x34],
            \<lparr>script = [],
             trace = [rd DIVIRQ_REGISTER 0, wr DIVIRQ_REGISTER 0 0,
                      rd FIFOLEVEL_REGISTER 0, wr FIFOLEVEL_REGISTER 0x80 0,
                      wr COMMAND_REGISTER PCD_IDLE 0]
                   @ fifo_writes [PICC_READ, 8] [0, 0]
                   @ [wr COMMAND_REGISTER PCD_CALCCRC 0]
                   @ crc_polls (replicate 255 0)
                   @ [rd CRCRESULTL_REGISTER 0x12, rd CRCRESULTM_REGISTER 0x34]\<rparr>)"
proof -
  let ?q = "replicate 255 0 @ [0x12, 0x34] :: 8 word list"
  have len: "length [0, 0 :: 8 word] = length [PICC_READ, 8]" "257 \<le> length ?q" by simp_all
  from calculateCRC_returns [OF len, of 0 0 0 0 0 0 "[]"]
  obtain k where k: "1 \<le> k" "k \<le> 255"
    and run: "calculateCRC [PICC_READ, 8]
        \<lparr>script = 0 # 0 # 0 # 0 # 0 # [0, 0] @ 0 # ?q, trace = []\<rparr>
       = Inr ([uint (?q ! k), uint (?q ! (k + 1))],
              \<lparr>script = drop (k + 2) ?q,
               trace = [] @ [rd DIVIRQ_REGISTER 0,
                            wr DIVIRQ_REGISTER (bit_and (uint (0 :: 8 word)) (bit_not 0x04)) 0,
                            rd FIFOLEVEL_REGISTER 0,
                            wr FIFOLEVEL_REGISTER (bit_or (uint (0 :: 8 word)) 0x80) 0,
                            wr COMMAND_REGISTER PCD_IDLE 0]
                         @ fifo_writes [PICC_READ, 8] [0, 0]
                         @ [wr COMMAND_REGISTER PCD_CALCCRC 0]
                         @ crc_polls (take k ?q)
                         @ [rd CRCRESULTL_REGISTER (?q ! k), rd CRCRESULTM_REGISTER (?q ! (k + 1))]\<rparr>)"
    and stop: "k < 255 \<longrightarrow> uint (?q ! (k - 1)) AND 0x04 \<noteq> 0"
    by blast
  have "k = 255"
  proof (rule ccontr)
    assume "k \<noteq> 255"
    with k have lt: "k < 255" by simp
    then have "?q ! (k - 1) = 0" by (simp add: nth_append)
    with stop lt show False by simp
  qed
  with run show ?thesis by (simp add: nth_append bit_and_def bit_or_def)
qed

section \<open>Card detection\<close>

text \<open>
  C8. After the bit framing register is written with \<open>0x07\<close> and the single byte
  \<open>0x26\<close> is transceived with result \<open>r\<close>, \<open>_cardPresent\<close> returns true if and
  only if the status is \<open>MI_OK\<close> and the bit length is 16.
\<close>

theorem cardPresent_iff:
  assumes "toCard PCD_TRANSCEIVE [PICC_REQIDL]
             \<lparr>script = s, trace = t @ [wr BITFRAMING_REGISTER 0x07 b0]\<rparr> = Inr (r, w')"
  shows "cardPresent \<lparr>script = b0 # s, trace = t\<rparr>
     = Inr (status r = MI_OK \<and> backLen r = 16, w')"
  using assms
  by (simp add: cardPresent_def bindIO_def returnIO_def Let_def MI_OK_def MI_ERR_def)

text \<open>
  The chip reports two bytes in the FIFO and no partial byte (bit length 16); the call
  returns true.
\<close>

theorem cardPresent_iff_witness:
  "map_sum id fst (cardPresent
      \<lparr>script = [0, 0, 0, 0, 0, 0, 0, 0, 0, 0, 0, 0x20, 0, 0, 0, 2, 0, 0x04, 0x00],
       trace = []\<rparr>)
     = Inr True"
proof -
  obtain w' where "toCard PCD_TRANSCEIVE [PICC_REQIDL]
      \<lparr>script = [0, 0, 0, 0, 0, 0, 0, 0, 0, 0, 0x20, 0, 0, 0, 2, 0, 0x04, 0x00],
       trace = [] @ [wr BITFRAMING_REGISTER 0x07 0]\<rparr>
     = Inr (\<lparr>status = MI_OK, backData = [0x04, 0x00], backLen = 16\<rparr>, w')"
    using toCard_transceive_run [where data = "[PICC_REQIDL]" and ds = "[0]"
      and polls = "[]" and hit = "0x20" and ev = 0 and lvl = 2 and ctl = 0
      and xs = "[0x04, 0x00]" and rest = "[]"
      and t = "[] @ [wr BITFRAMING_REGISTER 0x07 0]" and ?c0.0 = 0 and ?c1.0 = 0 and ?c2.0 = 0
      and ?c3.0 = 0 and ?c4.0 = 0 and ?c5.0 = 0 and ?c6.0 = 0 and ?c7.0 = 0 and ?c8.0 = 0
      and bf = 0 and x = 0]
    by (simp add: clampN_def)
  from cardPresent_iff [OF this] show ?thesis by simp
qed

section \<open>The payload of a read\<close>

text \<open>
  C9, as amended. A call of \<open>_readSector\<close> that returns has computed the CRC of
  \<open>[0x30, sector]\<close> and transceived the four bytes with a result \<open>r\<close>; if the status
  is not \<open>MI_OK\<close> it returns no payload, and otherwise it returns \<open>r.backData\<close>,
  which has at least 1 and at most 16 bytes.
\<close>

theorem readSector_payload:
  assumes "readSector sector w = Inr (res, w')"
  shows "\<exists>crc w1 r.
     calculateCRC [PICC_READ, sector] w = Inr (crc, w1) \<and>
     toCard PCD_TRANSCEIVE ([PICC_READ, sector] @ crc) w1 = Inr (r, w') \<and>
     (if status r = MI_OK
      then res = Some (backData r) \<and> 1 \<le> length (backData r) \<and> length (backData r) \<le> 16
      else res = None)"
proof -
  from assms obtain crc w1 r where
    crc: "calculateCRC [PICC_READ, sector] w = Inr (crc, w1)" and
    tx: "toCard PCD_TRANSCEIVE ([PICC_READ, sector] @ crc) w1 = Inr (r, w')" and
    res: "res = (if status r \<noteq> MI_OK then None else Some (backData r))"
    by (rule readSector_inv)
  have "status r = MI_OK \<longrightarrow> 1 \<le> length (backData r) \<and> length (backData r) \<le> 16"
    using toCard_result [OF tx] by (simp add: MI_OK_def MI_ERR_def split: if_splits)
  with crc tx res show ?thesis by auto
qed

text \<open>
  The FIFO level register reads 18 (sixteen data bytes and two CRC bytes): sixteen
  bytes are returned.
\<close>

theorem readSector_payload_witness:
  "\<exists>crc w1 r w'.
     calculateCRC [PICC_READ, 8]
      \<lparr>script = [0, 0, 0, 0, 0, 0, 0, 0, 0x04, 0x12, 0x34]
                @ [0, 0, 0, 0, 0, 0, 0, 0, 0, 0, 0, 0, 0, 0x20, 0, 0, 0, 18, 0]
                @ [1, 2, 3, 4, 5, 6, 7, 8, 9, 10, 11, 12, 13, 14, 15, 16],
       trace = []\<rparr> = Inr (crc, w1) \<and>
     toCard PCD_TRANSCEIVE ([PICC_READ, 8] @ crc) w1 = Inr (r, w') \<and>
     status r = MI_OK \<and>
     backData r = [1, 2, 3, 4, 5, 6, 7, 8, 9, 10, 11, 12, 13, 14, 15, 16] \<and>
     1 \<le> length (backData r) \<and> length (backData r) \<le> 16"
proof -
  from readSector_16 obtain w' where "readSector 8
      \<lparr>script = [0, 0, 0, 0, 0, 0, 0, 0, 0x04, 0x12, 0x34]
                @ [0, 0, 0, 0, 0, 0, 0, 0, 0, 0, 0, 0, 0, 0x20, 0, 0, 0, 18, 0]
                @ [1, 2, 3, 4, 5, 6, 7, 8, 9, 10, 11, 12, 13, 14, 15, 16],
       trace = []\<rparr>
     = Inr (Some [1, 2, 3, 4, 5, 6, 7, 8, 9, 10, 11, 12, 13, 14, 15, 16], w')" ..
  from readSector_payload [OF this] show ?thesis
    by (auto split: if_splits)
qed

text \<open>
  The claim as stated asks for exactly 16 bytes. When the card answers the read with four
  bits (FIFO level 1, 4 valid bits in the last byte) and the error register is clean, the
  status is \<open>MI_OK\<close> and the payload returned has one byte.
\<close>

theorem readSector_payload_of_one_byte:
  "map_sum id fst (readSector 8
      \<lparr>script = [0, 0, 0, 0, 0, 0, 0, 0, 0x04, 0x12, 0x34]
                @ [0, 0, 0, 0, 0, 0, 0, 0, 0, 0, 0, 0, 0, 0x20, 0, 0, 0, 1, 0x04]
                @ [0x04],
       trace = []\<rparr>)
     = Inr (Some [0x04])"
proof -
  let ?tx = "[0, 0, 0, 0, 0, 0, 0, 0, 0, 0, 0, 0, 0, 0x20, 0, 0, 0, 1, 0x04] @ [0x04] :: 8 word list"
  obtain t1 where crc: "calculateCRC [PICC_READ, 8]
      \<lparr>script = [0, 0, 0, 0, 0, 0, 0, 0, 0x04, 0x12, 0x34] @ ?tx, trace = []\<rparr>
     = Inr ([0x12, 0x34], \<lparr>script = ?tx, trace = t1\<rparr>)"
    using calculateCRC_run [where buf = "[PICC_READ, 8]" and ds = "[0, 0]" and polls = "[]"
        and fin = "0x04" and lo = "0x12" and hi = "0x34" and rest = ?tx and t = "[]"
        and ?c0.0 = 0 and ?c1.0 = 0 and ?c2.0 = 0 and ?c3.0 = 0 and ?c4.0 = 0 and ?c5.0 = 0]
    by simp
  obtain w' where tx: "toCard PCD_TRANSCEIVE ([PICC_READ, 8] @ [0x12, 0x34])
      \<lparr>script = ?tx, trace = t1\<rparr>
     = Inr (\<lparr>status = MI_OK, backData = [0x04], backLen = 4\<rparr>, w')"
    using toCard_transceive_run [where data = "[PICC_READ, 8, 0x12, 0x34]" and ds = "[0, 0, 0, 0]"
      and polls = "[]" and hit = "0x20" and ev = 0 and lvl = 1 and ctl = "0x04"
      and xs = "[0x04]" and rest = "[]"
      and t = t1 and ?c0.0 = 0 and ?c1.0 = 0 and ?c2.0 = 0
      and ?c3.0 = 0 and ?c4.0 = 0 and ?c5.0 = 0 and ?c6.0 = 0 and ?c7.0 = 0 and ?c8.0 = 0
      and bf = 0 and x = 0]
    by (simp add: clampN_def)
  from readSector_run [OF crc tx] show ?thesis by simp
qed

section \<open>Commands other than transceive and authenticate\<close>

text \<open>
  C10. For a command that is neither transceive nor authenticate the masks are
  \<open>irqEn = 0x00\<close> and \<open>waitIRq = 0x00\<close> (the byte written to the IRQ enable
  register is \<open>0x80\<close>); whatever 2000 bytes \<open>polls\<close> the chip answers to the polls,
  the loop reads all of them, and the call returns \<open>MI_ERR\<close> with no data and bit length
  0. No world makes such a call return anything else.
\<close>

theorem toCard_other_commands:
  assumes "command \<noteq> PCD_TRANSCEIVE" and "command \<noteq> PCD_AUTHENTICATE"
  shows "toCard_masks command = (0x00, 0x00) \<and>
    (length ds = length data \<longrightarrow> length polls = 2000 \<longrightarrow>
     toCard command data
           \<lparr>script = c0 # c1 # c2 # c3 # c4 # c5 # ds @ c6 # polls @ bf # x # rest,
            trace = t\<rparr>
     = Inr (\<lparr>status = MI_ERR, backData = [], backLen = 0\<rparr>,
            \<lparr>script = rest,
             trace = t @ [wr COMMIEN_REGISTER 0x80 c0,
                          rd COMMIRQ_REGISTER c1,
                          wr COMMIRQ_REGISTER (bit_and (uint c1) (bit_not 0x80)) c2,
                          rd FIFOLEVEL_REGISTER c3,
                          wr FIFOLEVEL_REGISTER (bit_or (uint c3) 0x80) c4,
                          wr COMMAND_REGISTER PCD_IDLE c5]
                       @ fifo_writes data ds
                       @ [wr COMMAND_REGISTER command c6]
                       @ irq_polls polls
                       @ [rd BITFRAMING_REGISTER bf,
                          wr BITFRAMING_REGISTER (bit_and (uint bf) (bit_not 0x80)) x]\<rparr>)) \<and>
    (\<forall>w r w'. toCard command data w = Inr (r, w') \<longrightarrow>
       r = \<lparr>status = MI_ERR, backData = [], backLen = 0\<rparr>)"
proof (intro conjI allI impI)
  show "toCard_masks command = (0x00, 0x00)" using assms by simp
next
  assume "length ds = length data" "length polls = 2000"
  then show "toCard command data
           \<lparr>script = c0 # c1 # c2 # c3 # c4 # c5 # ds @ c6 # polls @ bf # x # rest,
            trace = t\<rparr>
     = Inr (\<lparr>status = MI_ERR, backData = [], backLen = 0\<rparr>,
            \<lparr>script = rest,
             trace = t @ [wr COMMIEN_REGISTER 0x80 c0,
                          rd COMMIRQ_REGISTER c1,
                          wr COMMIRQ_REGISTER (bit_and (uint c1) (bit_not 0x80)) c2,
                          rd FIFOLEVEL_REGISTER c3,
                          wr FIFOLEVEL_REGISTER (bit_or (uint c3) 0x80) c4,
                          wr COMMAND_REGISTER PCD_IDLE c5]
                       @ fifo_writes data ds
                       @ [wr COMMAND_REGISTER command c6]
                       @ irq_polls polls
                       @ [rd BITFRAMING_REGISTER bf,
                          wr BITFRAMING_REGISTER (bit_and (uint bf) (bit_not 0x80)) x]\<rparr>)"
    by (rule toCard_other_run [OF assms])
next
  fix w r w'
  assume run: "toCard command data w = Inr (r, w')"
  then obtain n i w0 w1 where
    poll: "toCard_poll (snd (toCard_masks command)) 2000 w0 = Inr ((n, i), w1)" and
    fin: "toCard_finish command (fst (toCard_masks command)) n i w1 = Inr (r, w')"
    by (rule toCard_inv)
  from poll assms have "i = 0" by (simp add: toCard_poll_zero_mask)
  with toCard_finish_inv [OF fin] have "status r = MI_ERR \<and> backData r = [] \<and> backLen r = 0"
    by (simp split: if_splits)
  then show "r = \<lparr>status = MI_ERR, backData = [], backLen = 0\<rparr>" by simp
qed

text \<open>
  The idle command with one data byte, on a chip that answers every poll with the Timer
  IRQ bit.
\<close>

theorem toCard_other_commands_witness:
  "toCard_masks PCD_IDLE = (0x00, 0x00) \<and>
   toCard PCD_IDLE [0x26]
      \<lparr>script = 0 # 0 # 0 # 0 # 0 # 0 # [0] @ 0 # replicate 2000 0x01 @ 0 # 0 # [0x55],
       trace = []\<rparr>
     = Inr (\<lparr>status = MI_ERR, backData = [], backLen = 0\<rparr>,
            \<lparr>script = [0x55],
             trace = [wr COMMIEN_REGISTER 0x80 0,
                      rd COMMIRQ_REGISTER 0,
                      wr COMMIRQ_REGISTER 0 0,
                      rd FIFOLEVEL_REGISTER 0,
                      wr FIFOLEVEL_REGISTER 0x80 0,
                      wr COMMAND_REGISTER PCD_IDLE 0]
                   @ fifo_writes [0x26] [0]
                   @ [wr COMMAND_REGISTER PCD_IDLE 0]
                   @ irq_polls (replicate 2000 0x01)
                   @ [rd BITFRAMING_REGISTER 0, wr BITFRAMING_REGISTER 0 0]\<rparr>)"
  using toCard_other_commands [of PCD_IDLE "[0]" "[0x26]" "replicate 2000 0x01" 0 0 0 0 0 0 0 0 0
      "[0x55]" "[]"]
  by (simp add: PCD_IDLE_def PCD_TRANSCEIVE_def PCD_AUTHENTICATE_def bit_and_def bit_or_def bit_not_def)

end
